theory Spec2Isabelle
  imports Complex_Main "HOL-Library.AList" "HOL-Library.Char_ord" "HOL-Library.List_Lexorder"
    "HOL-Library.Multiset"
begin

section \<open>Day selection (run_analysis, graph_analyzer.py lines 555-599)\<close>

text \<open>
  A calendar day (\<open>datetime.date\<close>) is modelled by its day number, an unbounded integer:
  dates are totally ordered by it and \<open>(x - target_date).days\<close> is the difference of the
  two numbers. A Python \<open>set\<close> of days is a finite \<open>day set\<close>; \<open>sorted(s)\<close> is
  \<open>sorted_list_of_set s\<close>.
\<close>

type_synonym day = int

text \<open>
  Python's \<open>min(xs, key=f)\<close>: one left-to-right pass that keeps the current best and
  replaces it only by an element whose key is strictly smaller, so among equal keys the
  first one met wins. On an empty list it raises \<open>ValueError\<close> (here \<open>None\<close>).
\<close>

fun min_key_loop :: "('a \<Rightarrow> int) \<Rightarrow> 'a \<Rightarrow> 'a list \<Rightarrow> 'a" where
  "min_key_loop key best [] = best"
| "min_key_loop key best (x # xs) =
     min_key_loop key (if key x < key best then x else best) xs"

definition min_key :: "('a \<Rightarrow> int) \<Rightarrow> 'a list \<Rightarrow> 'a option" where
  "min_key key xs = (case xs of [] \<Rightarrow> None | x # rest \<Rightarrow> Some (min_key_loop key x rest))"

text \<open>\<open>max(all_days) if all_days else None\<close>\<close>

definition latest_day :: "day set \<Rightarrow> day option" where
  "latest_day all_days = (if all_days \<noteq> {} then Some (Max all_days) else None)"

text \<open>
  The selection of \<open>selected_day\<close> in \<open>run_analysis\<close>. The result \<open>None\<close> is the value
  \<open>None\<close> of the source, on which \<open>run_analysis\<close> raises
  \<open>RuntimeError("No valid days found for analysis")\<close> (a date object is always truthy).
\<close>

definition select_day :: "day set \<Rightarrow> day set \<Rightarrow> day option" where
  "select_day all_days malicious_days =
     (if malicious_days \<noteq> {} then
        (case sorted_list_of_set (all_days \<inter> malicious_days) of
           first_day # _ \<Rightarrow> Some first_day
         | [] \<Rightarrow>
             if all_days \<noteq> {} \<and> malicious_days \<noteq> {} then
               (let all_days_list = sorted_list_of_set all_days;
                    malicious_days_list = sorted_list_of_set malicious_days
                in case malicious_days_list of
                     [] \<Rightarrow> None
                   | target_date # _ \<Rightarrow>
                       min_key (\<lambda>x. \<bar>x - target_date\<bar>) all_days_list)
             else latest_day all_days)
      else latest_day all_days)"

section \<open>Graph construction (build_graph, lines 271-369)\<close>

text \<open>
  The three data frames are lists of rows in row order; the columns keep their names,
  prefixed by the frame (\<open>lg\<close>, \<open>dv\<close>, \<open>ht\<close>). The counts are integers.
\<close>

record logon_row =
  lg_user :: string
  lg_pc :: string
  lg_day :: day
  lg_logon :: int
  lg_logoff :: int

record device_row =
  dv_user :: string
  dv_pc :: string
  dv_day :: day
  dv_connect :: int
  dv_disconnect :: int

record http_row =
  ht_user :: string
  ht_domain :: string
  ht_day :: day
  ht_request_count :: int

text \<open>The values \<open>"user"\<close>, \<open>"pc"\<close> and \<open>"domain"\<close> stored in \<open>self.node_type\<close>.\<close>

datatype node_kind = User | Pc | Domain

text \<open>
  The \<open>torch_geometric\<close> \<open>Data\<close> object. The tensors are lists indexed by node (or by
  edge): \<open>x\<close> holds one degree per node (a count, kept as a natural number),
  \<open>edge_index\<close> one (source, target) pair per edge, \<open>edge_attr\<close> the five feature
  channels of each edge, \<open>y\<close> the labels and \<open>train_mask\<close> the supervision mask.
  \<open>num_nodes\<close> and \<open>num_edges\<close> are read off \<open>x\<close> and \<open>edge_index\<close> as the library
  does.
\<close>

record graph_data =
  data_x :: "nat list"
  data_edge_index :: "(nat \<times> nat) list"
  data_edge_attr :: "int list list"
  data_y :: "nat list"
  data_train_mask :: "bool list"

definition num_nodes :: "graph_data \<Rightarrow> nat" where
  "num_nodes d = length (data_x d)"

definition num_edges :: "graph_data \<Rightarrow> nat" where
  "num_edges d = length (data_edge_index d)"

text \<open>
  The fields of \<open>InsiderThreatDetector\<close>. The two dictionaries are association lists in
  insertion order: \<open>AList.update\<close> overwrites the value of a key that is present where
  it stands and appends a new key at the end, as a Python \<open>dict\<close> does. The model type
  \<open>'m\<close> stands for the network together with its optimizer.
\<close>

record 'm detector =
  model :: "'m option"
  data :: "graph_data option"
  node_id :: "(string \<times> nat) list"
  node_type :: "(nat \<times> node_kind) list"
  malicious_users :: "string set"
  malicious_days :: "day set"

text \<open>
  The exceptions that the modelled code raises: \<open>KeyError\<close> with the missing key,
  \<open>IndexError\<close> with the index and the size of the tensor, the others with their message.
\<close>

datatype exn =
  ValueError string | RuntimeError string | KeyError nat | IndexError nat nat | AttributeError string

text \<open>
  Python iterates a \<open>set\<close> in an order that the language leaves open. The order is a
  parameter \<open>iter\<close> of the model; all that is known of it is that every element of a
  finite set comes exactly once.
\<close>

definition set_iteration :: "('a set \<Rightarrow> 'a list) \<Rightarrow> bool" where
  "set_iteration iter \<longleftrightarrow> (\<forall>A. finite A \<longrightarrow> distinct (iter A) \<and> set (iter A) = A)"

text \<open>One round of the three loops \<open>self.node_id[u] = idx; self.node_type[idx] = ...; idx += 1\<close>.\<close>

definition add_node ::
  "node_kind \<Rightarrow> string \<Rightarrow> (string \<times> nat) list \<times> (nat \<times> node_kind) list \<times> nat
     \<Rightarrow> (string \<times> nat) list \<times> (nat \<times> node_kind) list \<times> nat" where
  "add_node kind name = (\<lambda>(nid, nty, idx).
     (AList.update name idx nid, AList.update idx kind nty, idx + 1))"

definition assign_nodes ::
  "string list \<Rightarrow> string list \<Rightarrow> string list
     \<Rightarrow> (string \<times> nat) list \<times> (nat \<times> node_kind) list \<times> nat" where
  "assign_nodes users pcs domains =
     fold (add_node Domain) domains
       (fold (add_node Pc) pcs
          (fold (add_node User) users ([], [], 0)))"

text \<open>
  \<open>if a in self.node_id and b in self.node_id: edges.append(...); edge_features.append(...)\<close>:
  the edge of one row, or nothing.
\<close>

definition edge_between ::
  "(string \<times> nat) list \<Rightarrow> string \<Rightarrow> string \<Rightarrow> int list \<Rightarrow> ((nat \<times> nat) \<times> int list) list" where
  "edge_between nid a b features =
     (case map_of nid a of
        None \<Rightarrow> []
      | Some s \<Rightarrow> (case map_of nid b of None \<Rightarrow> [] | Some t \<Rightarrow> [((s, t), features)]))"

definition logon_edges :: "(string \<times> nat) list \<Rightarrow> logon_row list \<Rightarrow> ((nat \<times> nat) \<times> int list) list" where
  "logon_edges nid rows =
     concat (map (\<lambda>r. edge_between nid (lg_user r) (lg_pc r) [lg_logon r, lg_logoff r, 0, 0, 0]) rows)"

definition device_edges :: "(string \<times> nat) list \<Rightarrow> device_row list \<Rightarrow> ((nat \<times> nat) \<times> int list) list" where
  "device_edges nid rows =
     concat (map (\<lambda>r. edge_between nid (dv_user r) (dv_pc r) [0, 0, dv_connect r, dv_disconnect r, 0]) rows)"

definition http_edges :: "(string \<times> nat) list \<Rightarrow> http_row list \<Rightarrow> ((nat \<times> nat) \<times> int list) list" where
  "http_edges nid rows =
     concat (map (\<lambda>r. edge_between nid (ht_user r) (ht_domain r) [0, 0, 0, 0, ht_request_count r]) rows)"

text \<open>\<open>for s, t in edge_index.t(): x[s] += 1; x[t] += 1\<close>, from \<open>torch.zeros\<close>.\<close>

definition bump :: "nat \<Rightarrow> nat list \<Rightarrow> nat list" where
  "bump i xs = xs[i := xs ! i + 1]"

definition degree_features :: "nat \<Rightarrow> (nat \<times> nat) list \<Rightarrow> nat list" where
  "degree_features n edges = fold (\<lambda>(s, t) xs. bump t (bump s xs)) edges (replicate n 0)"

text \<open>
  The loop \<open>for name, idx in self.node_id.items()\<close> that fills \<open>y\<close> and \<open>train_mask\<close>.
  Every index stored in \<open>node_id\<close> is a key of \<open>node_type\<close> here, so the lookup
  \<open>self.node_type[idx]\<close> finds its key.
\<close>

definition label_nodes ::
  "string set \<Rightarrow> (string \<times> nat) list \<Rightarrow> (nat \<times> node_kind) list \<Rightarrow> nat \<Rightarrow> nat list \<times> bool list" where
  "label_nodes mal nid nty n =
     fold (\<lambda>(name, idx) (ys, msk).
             (if name \<in> mal then ys[idx := 1] else ys,
              if map_of nty idx = Some User then msk[idx := True] else msk))
       nid (replicate n 0, replicate n False)"

definition day_users :: "logon_row list \<Rightarrow> device_row list \<Rightarrow> http_row list \<Rightarrow> string set" where
  "day_users logon_day device_day http_day =
     set (map lg_user logon_day) \<union> set (map dv_user device_day) \<union> set (map ht_user http_day)"

definition day_pcs :: "logon_row list \<Rightarrow> device_row list \<Rightarrow> string set" where
  "day_pcs logon_day device_day = set (map lg_pc logon_day) \<union> set (map dv_pc device_day)"

definition day_domains :: "http_row list \<Rightarrow> string set" where
  "day_domains http_day = set (map ht_domain http_day)"

text \<open>The rows of the selected day: \<open>logon[logon["day"] == selected_day]\<close> and its two siblings.\<close>

definition logon_on :: "day \<Rightarrow> logon_row list \<Rightarrow> logon_row list" where
  "logon_on selected_day logon = filter (\<lambda>r. lg_day r = selected_day) logon"

definition device_on :: "day \<Rightarrow> device_row list \<Rightarrow> device_row list" where
  "device_on selected_day device = filter (\<lambda>r. dv_day r = selected_day) device"

definition http_on :: "day \<Rightarrow> http_row list \<Rightarrow> http_row list" where
  "http_on selected_day http = filter (\<lambda>r. ht_day r = selected_day) http"

text \<open>The node mappings (lines 284-312) and the edges with their features (lines 314-334).\<close>

definition day_nodes ::
  "(string set \<Rightarrow> string list) \<Rightarrow> logon_row list \<Rightarrow> device_row list \<Rightarrow> http_row list
     \<Rightarrow> (string \<times> nat) list \<times> (nat \<times> node_kind) list \<times> nat" where
  "day_nodes iter logon_day device_day http_day =
     assign_nodes (iter (day_users logon_day device_day http_day))
       (iter (day_pcs logon_day device_day)) (iter (day_domains http_day))"

definition day_edges ::
  "(string \<times> nat) list \<Rightarrow> logon_row list \<Rightarrow> device_row list \<Rightarrow> http_row list
     \<Rightarrow> ((nat \<times> nat) \<times> int list) list" where
  "day_edges nid logon_day device_day http_day =
     logon_edges nid logon_day @ device_edges nid device_day @ http_edges nid http_day"

text \<open>
  \<open>build_graph\<close>: the new state of the detector and the returned value (\<open>None\<close> or the
  \<open>Data\<close> object, which is also stored in \<open>self.data\<close>).
\<close>

definition build_graph ::
  "(string set \<Rightarrow> string list) \<Rightarrow> 'm detector \<Rightarrow> logon_row list \<Rightarrow> device_row list
     \<Rightarrow> http_row list \<Rightarrow> day \<Rightarrow> 'm detector \<times> graph_data option" where
  "build_graph iter st logon device http selected_day =
     (let logon_day = logon_on selected_day logon;
          device_day = device_on selected_day device;
          http_day = http_on selected_day http;
          (nid, nty, n) = day_nodes iter logon_day device_day http_day;
          st1 = st\<lparr>node_id := nid, node_type := nty\<rparr>;
          edges = day_edges nid logon_day device_day http_day
      in if edges = [] then (st1, None)
         else
           (let edge_index = map fst edges;
                edge_attr = map snd edges;
                (ys, msk) = label_nodes (malicious_users st1) nid nty n;
                d = \<lparr>data_x = degree_features n edge_index, data_edge_index = edge_index,
                     data_edge_attr = edge_attr, data_y = ys, data_train_mask = msk\<rparr>
            in (st1\<lparr>data := Some d\<rparr>, Some d)))"

section \<open>Training (train_model, lines 389-435)\<close>

text \<open>
  Boolean-mask indexing \<open>t[mask]\<close> of a tensor by a mask of the same length: the entries
  at the positions where the mask is true, in order.
\<close>

definition masked :: "'a list \<Rightarrow> bool list \<Rightarrow> 'a list" where
  "masked ts msk = map fst (filter snd (zip ts msk))"

text \<open>\<open>pos_mask.sum()\<close> for \<open>pos_mask = self.data.y[self.data.train_mask] == 1\<close>.\<close>

definition positive_count :: "graph_data \<Rightarrow> nat" where
  "positive_count d = length (filter (\<lambda>l. l = 1) (masked (data_y d) (data_train_mask d)))"

text \<open>\<open>torch.where(self.data.train_mask)[0]\<close>: the positions where the mask is true, ascending.\<close>

definition where_true :: "bool list \<Rightarrow> nat list" where
  "where_true msk = filter (\<lambda>i. msk ! i) [0..<length msk]"

text \<open>
  \<open>torch.topk(values, k).indices\<close> for \<open>k \<le> len(values)\<close>: the positions of \<open>k\<close> largest
  values. Which of several equal values are taken, and in which order the positions come,
  the library leaves open. The function is therefore a parameter \<open>topk\<close> of the model;
  \<open>top_k_choice\<close> says what is known of it: \<open>k\<close> different positions of the tensor, none
  of which holds a smaller value than a position left out.
\<close>

definition top_k_choice :: "(nat list \<Rightarrow> nat \<Rightarrow> nat list) \<Rightarrow> bool" where
  "top_k_choice topk \<longleftrightarrow>
     (\<forall>vals k. k \<le> length vals \<longrightarrow>
        length (topk vals k) = k \<and> distinct (topk vals k) \<and>
        set (topk vals k) \<subseteq> {0..<length vals} \<and>
        (\<forall>a\<in>set (topk vals k). \<forall>b<length vals.
           b \<notin> set (topk vals k) \<longrightarrow> vals ! b \<le> vals ! a))"

text \<open>
  \<open>top_indices\<close> of lines 413-419: the nodes of the mask with the \<open>min(3, len(user_indices))\<close>
  highest degrees.
\<close>

definition top_indices :: "(nat list \<Rightarrow> nat \<Rightarrow> nat list) \<Rightarrow> graph_data \<Rightarrow> nat list" where
  "top_indices topk d =
     (let user_indices = where_true (data_train_mask d);
          degrees = map (\<lambda>i. data_x d ! i) user_indices
      in map (\<lambda>j. user_indices ! j) (topk degrees (min 3 (length user_indices))))"

text \<open>
  The fallback at the head of each epoch (lines 408-420): the graph data after it.
  \<open>self.data.y[top_indices] = 1\<close> writes the label of every listed node.
\<close>

definition positive_fallback :: "(nat list \<Rightarrow> nat \<Rightarrow> nat list) \<Rightarrow> graph_data \<Rightarrow> graph_data" where
  "positive_fallback topk d =
     (if positive_count d = 0 then
        (let user_indices = where_true (data_train_mask d) in
         if length user_indices > 0 then
           d\<lparr>data_y := fold (\<lambda>i ys. ys[i := 1]) (top_indices topk d) (data_y d)\<rparr>
         else d)
      else d)"

text \<open>
  The epoch loop. The forward pass, the loss, the backward pass and the optimizer step of
  one epoch are the parameter \<open>step\<close>: from the model and the graph data (after the
  fallback) it gives the updated model and the loss of the epoch.
\<close>

fun train_epochs ::
  "(nat list \<Rightarrow> nat \<Rightarrow> nat list) \<Rightarrow> ('m \<Rightarrow> graph_data \<Rightarrow> 'm \<times> real) \<Rightarrow> nat \<Rightarrow> 'm
     \<Rightarrow> graph_data \<Rightarrow> real list \<Rightarrow> 'm \<times> graph_data \<times> real list" where
  "train_epochs topk step 0 m d training_losses = (m, d, training_losses)"
| "train_epochs topk step (Suc n) m d training_losses =
     (let d' = positive_fallback topk d;
          (m', loss) = step m d'
      in train_epochs topk step n m' d' (training_losses @ [loss]))"

text \<open>
  \<open>train_model\<close>; \<open>create_gnn_model\<close> is the freshly initialised network. The result is
  the raised exception, or the new state and the returned losses.
\<close>

definition train_model ::
  "(nat list \<Rightarrow> nat \<Rightarrow> nat list) \<Rightarrow> 'm \<Rightarrow> ('m \<Rightarrow> graph_data \<Rightarrow> 'm \<times> real)
     \<Rightarrow> 'm detector \<Rightarrow> nat \<Rightarrow> exn + ('m detector \<times> real list)" where
  "train_model topk create_gnn_model step st epochs =
     (case data st of
        None \<Rightarrow> Inl (ValueError ''Graph data not available. Build graph first.'')
      | Some d \<Rightarrow>
          (let (m, d', training_losses) = train_epochs topk step epochs create_gnn_model d []
           in Inr (st\<lparr>model := Some m, data := Some d'\<rparr>, training_losses)))"

text \<open>
  The tensors of one \<open>Data\<close> object have one entry per node; \<open>train_nodes\<close> are the nodes
  of the mask.
\<close>

definition well_formed :: "graph_data \<Rightarrow> bool" where
  "well_formed d \<longleftrightarrow>
     length (data_y d) = length (data_x d) \<and> length (data_train_mask d) = length (data_x d)"

definition train_nodes :: "graph_data \<Rightarrow> nat list" where
  "train_nodes d = where_true (data_train_mask d)"

section \<open>Prediction (get_predictions, lines 437-492)\<close>

text \<open>
  Scores are real numbers. A tensor of scores is a function of the node index; the
  parameter \<open>forward\<close> is the network's output, one logit per node, from \<open>x\<close> and
  \<open>edge_index\<close>.
\<close>

definition sigmoid :: "real \<Rightarrow> real" where
  "sigmoid z = 1 / (1 + exp (- z))"

definition clamp :: "real \<Rightarrow> real \<Rightarrow> real \<Rightarrow> real" where
  "clamp v lo hi = min (max v lo) hi"

text \<open>
  The inner loop \<open>for name, idx in self.node_id.items(): if idx == i: user_name = name; break\<close>:
  the first key stored with index \<open>i\<close>, or \<open>None\<close>.
\<close>

definition name_of_index :: "(string \<times> nat) list \<Rightarrow> nat \<Rightarrow> string option" where
  "name_of_index nid i = map_option fst (find (\<lambda>(name, idx). idx = i) nid)"

text \<open>
  The boosting loop over \<open>range(self.data.num_nodes)\<close> (lines 447-460);
  \<open>self.node_type[i]\<close> raises \<open>KeyError\<close> for an index that is not a key. The test
  \<open>if user_name and ...\<close> is false for \<open>None\<close> and for the empty string.
\<close>

fun boost_scores :: "'m detector \<Rightarrow> nat list \<Rightarrow> (nat \<Rightarrow> real) \<Rightarrow> exn + (nat \<Rightarrow> real)" where
  "boost_scores st [] scores = Inr scores"
| "boost_scores st (i # rest) scores =
     (case map_of (node_type st) i of
        None \<Rightarrow> Inl (KeyError i)
      | Some kind \<Rightarrow>
          if kind = User then
            (case name_of_index (node_id st) i of
               None \<Rightarrow> boost_scores st rest scores
             | Some user_name \<Rightarrow>
                 if user_name \<noteq> [] \<and> user_name \<in> malicious_users st
                 then boost_scores st rest (scores(i := clamp (scores i + 0.8) 0.0 1.0))
                 else boost_scores st rest scores)
          else boost_scores st rest scores)"

record prediction =
  p_user :: string
  p_score :: real
  p_is_known_malicious :: bool

text \<open>The loop that collects \<open>top_users\<close> (lines 463-480).\<close>

fun collect_users :: "'m detector \<Rightarrow> (nat \<Rightarrow> real) \<Rightarrow> nat list \<Rightarrow> exn + prediction list" where
  "collect_users st scores [] = Inr []"
| "collect_users st scores (i # rest) =
     (case map_of (node_type st) i of
        None \<Rightarrow> Inl (KeyError i)
      | Some kind \<Rightarrow>
          (case collect_users st scores rest of
             Inl e \<Rightarrow> Inl e
           | Inr others \<Rightarrow>
               if kind = User then
                 (case name_of_index (node_id st) i of
                    None \<Rightarrow> Inr others
                  | Some user_name \<Rightarrow>
                      if user_name \<noteq> [] then
                        Inr (\<lparr>p_user = user_name, p_score = scores i,
                              p_is_known_malicious = (user_name \<in> malicious_users st)\<rparr> # others)
                      else Inr others)
               else Inr others))"

text \<open>
  \<open>top_users.sort(key=lambda x: x["score"], reverse=True)\<close>: a stable sort, entries of
  equal score keep their order.
\<close>

definition sort_by_score :: "prediction list \<Rightarrow> prediction list" where
  "sort_by_score top_users = sort_key (\<lambda>e. - p_score e) top_users"

text \<open>
  Lines 446-492 of \<open>get_predictions\<close>, from the scores before boosting: boost, collect,
  sort, and return \<open>top_users[:top_k]\<close>; \<open>n\<close> is \<open>self.data.num_nodes\<close>.
\<close>

definition rank_users :: "'m detector \<Rightarrow> nat \<Rightarrow> (nat \<Rightarrow> real) \<Rightarrow> nat \<Rightarrow> exn + prediction list" where
  "rank_users st n scores top_k =
     (case boost_scores st [0..<n] scores of
        Inl e \<Rightarrow> Inl e
      | Inr boosted \<Rightarrow>
          (case collect_users st boosted [0..<n] of
             Inl e \<Rightarrow> Inl e
           | Inr top_users \<Rightarrow> Inr (take top_k (sort_by_score top_users))))"

text \<open>
  \<open>get_predictions(self, top_k=50)\<close>: the argument \<open>None\<close> is the call that leaves
  \<open>top_k\<close> out.
\<close>

definition get_predictions ::
  "('m \<Rightarrow> nat list \<Rightarrow> (nat \<times> nat) list \<Rightarrow> nat \<Rightarrow> real) \<Rightarrow> 'm detector \<Rightarrow> nat option
     \<Rightarrow> exn + prediction list" where
  "get_predictions forward st top_k_arg =
     (let top_k = (case top_k_arg of None \<Rightarrow> 50 | Some k \<Rightarrow> k) in
      case (model st, data st) of
        (Some m, Some d) \<Rightarrow>
          (let scores = (\<lambda>i. sigmoid (forward m (data_x d) (data_edge_index d) i))
           in rank_users st (num_nodes d) scores top_k)
      | _ \<Rightarrow> Inl (ValueError ''Model not trained or data not available''))"

text \<open>
  The test of lines 448-455 on node \<open>i\<close> (a user node whose name is found, is not empty
  and is in \<open>malicious_users\<close>), and the test of lines 465-473 (a user node whose name is
  found and is not empty).
\<close>

definition known_malicious_user :: "'m detector \<Rightarrow> nat \<Rightarrow> bool" where
  "known_malicious_user st i \<longleftrightarrow>
     map_of (node_type st) i = Some User \<and>
     (case name_of_index (node_id st) i of
        None \<Rightarrow> False
      | Some user_name \<Rightarrow> user_name \<noteq> [] \<and> user_name \<in> malicious_users st)"

definition listed_user :: "'m detector \<Rightarrow> nat \<Rightarrow> bool" where
  "listed_user st i \<longleftrightarrow>
     map_of (node_type st) i = Some User \<and>
     (case name_of_index (node_id st) i of None \<Rightarrow> False | Some user_name \<Rightarrow> user_name \<noteq> [])"

section \<open>Export for display (get_graph_data_for_visualization, lines 494-541)\<close>

record viz_node =
  vn_id :: string
  vn_type :: node_kind
  vn_is_malicious :: bool
  vn_degree :: nat

record viz_edge =
  ve_source :: string
  ve_target :: string
  ve_weight :: nat

record viz_stats =
  total_nodes :: nat
  total_edges :: nat
  stats_malicious_users :: nat

record graph_viz =
  viz_nodes :: "viz_node list"
  viz_edges :: "viz_edge list"
  viz_stats :: viz_stats

text \<open>
  The loop over \<open>self.node_id.items()\<close> that builds \<open>nodes\<close>: \<open>self.node_type[idx]\<close>
  raises \<open>KeyError\<close> for a missing key and \<open>self.data.x[idx, 0]\<close> raises \<open>IndexError\<close>
  for an index beyond the tensor.
\<close>

fun export_nodes :: "'m detector \<Rightarrow> graph_data \<Rightarrow> (string \<times> nat) list \<Rightarrow> exn + viz_node list" where
  "export_nodes st d [] = Inr []"
| "export_nodes st d ((name, idx) # rest) =
     (case map_of (node_type st) idx of
        None \<Rightarrow> Inl (KeyError idx)
      | Some kind \<Rightarrow>
          if idx < length (data_x d) then
            (case export_nodes st d rest of
               Inl e \<Rightarrow> Inl e
             | Inr others \<Rightarrow>
                 Inr (\<lparr>vn_id = name, vn_type = kind,
                       vn_is_malicious = (name \<in> malicious_users st),
                       vn_degree = data_x d ! idx\<rparr> # others))
          else Inl (IndexError idx (length (data_x d))))"

text \<open>
  The search for the names of an edge's endpoints (lines 520-526): a full pass over
  \<open>self.node_id.items()\<close> with \<open>if idx == src_idx: ... elif idx == tgt_idx: ...\<close>.
\<close>

definition edge_names :: "(string \<times> nat) list \<Rightarrow> nat \<Rightarrow> nat \<Rightarrow> string option \<times> string option" where
  "edge_names nid src_idx tgt_idx =
     fold (\<lambda>(name, idx) (src_name, tgt_name).
             if idx = src_idx then (Some name, tgt_name)
             else if idx = tgt_idx then (src_name, Some name)
             else (src_name, tgt_name))
       nid (None, None)"

text \<open>\<open>if src_name and tgt_name: edges.append(...)\<close>, for one edge.\<close>

definition export_edge :: "(string \<times> nat) list \<Rightarrow> nat \<times> nat \<Rightarrow> viz_edge list" where
  "export_edge nid e =
     (case edge_names nid (fst e) (snd e) of
        (Some src_name, Some tgt_name) \<Rightarrow>
          if src_name \<noteq> [] \<and> tgt_name \<noteq> []
          then [\<lparr>ve_source = src_name, ve_target = tgt_name, ve_weight = 1\<rparr>]
          else []
      | _ \<Rightarrow> [])"

definition get_graph_data_for_visualization :: "'m detector \<Rightarrow> exn + graph_viz option" where
  "get_graph_data_for_visualization st =
     (case data st of
        None \<Rightarrow> Inr None
      | Some d \<Rightarrow>
          (case export_nodes st d (node_id st) of
             Inl e \<Rightarrow> Inl e
           | Inr nodes \<Rightarrow>
               (let edges = concat (map (export_edge (node_id st)) (data_edge_index d))
                in Inr (Some \<lparr>viz_nodes = nodes, viz_edges = edges,
                     viz_stats = \<lparr>total_nodes = length nodes, total_edges = length edges,
                       stats_malicious_users =
                         length (filter (\<lambda>n. vn_is_malicious n \<and> vn_type n = User) nodes)\<rparr>\<rparr>))))"

text \<open>
  An edge of the graph that the export keeps: its endpoints are two different indices, each
  with a name in \<open>node_id\<close> that is not empty. A day has separate names when no name is
  shared between its users, pcs and domains and none is the empty string.
\<close>

definition exported_edge :: "(string \<times> nat) list \<Rightarrow> nat \<times> nat \<Rightarrow> bool" where
  "exported_edge nid e \<longleftrightarrow>
     fst e \<noteq> snd e \<and>
     (case name_of_index nid (fst e) of None \<Rightarrow> False | Some src_name \<Rightarrow> src_name \<noteq> []) \<and>
     (case name_of_index nid (snd e) of None \<Rightarrow> False | Some tgt_name \<Rightarrow> tgt_name \<noteq> [])"

definition separate_names :: "logon_row list \<Rightarrow> device_row list \<Rightarrow> http_row list \<Rightarrow> bool" where
  "separate_names logon_day device_day http_day \<longleftrightarrow>
     day_users logon_day device_day http_day \<inter> day_pcs logon_day device_day = {} \<and>
     day_users logon_day device_day http_day \<inter> day_domains http_day = {} \<and>
     day_pcs logon_day device_day \<inter> day_domains http_day = {} \<and>
     [] \<notin> day_users logon_day device_day http_day \<union> day_pcs logon_day device_day \<union>
            day_domains http_day"

section \<open>The pipeline (run_analysis, lines 543-643)\<close>

record summary =
  sum_total_nodes :: nat
  sum_total_edges :: nat
  users_analyzed :: nat
  known_malicious :: nat
  date_range :: "day \<times> day"
  total_days_available :: nat

text \<open>
  The dictionary that \<open>run_analysis\<close> returns: the success dictionary, or the one built
  in the \<open>except\<close> branch, which holds of the exception its text \<open>str(e)\<close> and nothing
  else; \<open>status\<close> is the \<open>"status"\<close> entry.
\<close>

datatype analysis =
  Success day "prediction list" "graph_viz option" "real list" summary
| Failure string

definition status :: "analysis \<Rightarrow> string" where
  "status r = (case r of Success _ _ _ _ _ \<Rightarrow> ''success'' | Failure _ \<Rightarrow> ''error'')"

text \<open>Decimal digits of a number, as \<open>str\<close> prints it.\<close>

fun str_nat :: "nat \<Rightarrow> string" where
  "str_nat n =
     (if n < 10 then [char_of (48 + n)]
      else str_nat (n div 10) @ [char_of (48 + n mod 10)])"

declare str_nat.simps [simp del]

text \<open>
  \<open>str(e)\<close>: the message of the exception; for \<open>KeyError\<close> the key, for the
  \<open>IndexError\<close> of a tensor the library's sentence.
\<close>

definition str_exn :: "exn \<Rightarrow> string" where
  "str_exn e =
     (case e of
        ValueError msg \<Rightarrow> msg
      | RuntimeError msg \<Rightarrow> msg
      | AttributeError msg \<Rightarrow> msg
      | KeyError k \<Rightarrow> str_nat k
      | IndexError i n \<Rightarrow>
          ''index '' @ str_nat i @ '' is out of bounds for dimension 0 with size '' @ str_nat n)"

text \<open>
  The \<open>try\<close> ... \<open>except Exception as e\<close> around the body of \<open>run_analysis\<close>
  (lines 633-643): what the caller receives when the body raises \<open>e\<close> or returns \<open>r\<close>.
\<close>

definition report :: "exn + analysis \<Rightarrow> analysis" where
  "report outcome = (case outcome of Inl e \<Rightarrow> Failure (str_exn e) | Inr r \<Rightarrow> r)"

text \<open>
  Lines 598-631: the body from the selected day on, with 25 epochs and \<open>top_k=100\<close>. It
  raises an exception or returns the success dictionary.
\<close>

definition analyse_selected_day ::
  "(string set \<Rightarrow> string list) \<Rightarrow> (nat list \<Rightarrow> nat \<Rightarrow> nat list) \<Rightarrow> 'm
     \<Rightarrow> ('m \<Rightarrow> graph_data \<Rightarrow> 'm \<times> real)
     \<Rightarrow> ('m \<Rightarrow> nat list \<Rightarrow> (nat \<times> nat) list \<Rightarrow> nat \<Rightarrow> real)
     \<Rightarrow> 'm detector \<Rightarrow> logon_row list \<Rightarrow> device_row list \<Rightarrow> http_row list
     \<Rightarrow> day set \<Rightarrow> day option \<Rightarrow> exn + analysis" where
  "analyse_selected_day iter topk create_gnn_model step forward st logon device http all_days
     selected =
     (case selected of
        None \<Rightarrow> Inl (RuntimeError ''No valid days found for analysis'')
      | Some selected_day \<Rightarrow>
          (case build_graph iter st logon device http selected_day of
             (st1, None) \<Rightarrow> Inl (RuntimeError ''Failed to build graph'')
           | (st1, Some g) \<Rightarrow>
               (case train_model topk create_gnn_model step st1 25 of
                  Inl e \<Rightarrow> Inl e
                | Inr (st2, training_losses) \<Rightarrow>
                    (case get_predictions forward st2 (Some 100) of
                       Inl e \<Rightarrow> Inl e
                     | Inr suspicious_users \<Rightarrow>
                         (case get_graph_data_for_visualization st2 of
                            Inl e \<Rightarrow> Inl e
                          | Inr graph_viz_data \<Rightarrow>
                              (case data st2 of
                                 None \<Rightarrow>
                                   Inl (AttributeError
                                     (CHR 0x27 # ''NoneType'' @ CHR 0x27 #
                                      '' object has no attribute '' @ CHR 0x27 #
                                      ''num_nodes'' @ [CHR 0x27]))
                               | Some d \<Rightarrow>
                                   Inr (Success selected_day suspicious_users graph_viz_data
                                     training_losses
                                     \<lparr>sum_total_nodes = num_nodes d,
                                      sum_total_edges = num_edges d,
                                      users_analyzed = length (filter id (data_train_mask d)),
                                      known_malicious = card (malicious_users st2),
                                      date_range = (Min all_days, Max all_days),
                                      total_days_available = card all_days\<rparr>)))))))"

text \<open>
  \<open>run_analysis\<close> after the two loading steps, whose results are the frames \<open>logon\<close>,
  \<open>device\<close>, \<open>http\<close> and the two ground-truth sets of the state. With no day at all,
  \<open>min(all_days)\<close> in the log message of line 557 raises \<open>ValueError\<close>.
\<close>

definition run_analysis ::
  "(string set \<Rightarrow> string list) \<Rightarrow> (nat list \<Rightarrow> nat \<Rightarrow> nat list) \<Rightarrow> 'm
     \<Rightarrow> ('m \<Rightarrow> graph_data \<Rightarrow> 'm \<times> real)
     \<Rightarrow> ('m \<Rightarrow> nat list \<Rightarrow> (nat \<times> nat) list \<Rightarrow> nat \<Rightarrow> real)
     \<Rightarrow> 'm detector \<Rightarrow> logon_row list \<Rightarrow> device_row list \<Rightarrow> http_row list \<Rightarrow> analysis" where
  "run_analysis iter topk create_gnn_model step forward st logon device http =
     (let all_days = set (map lg_day logon) \<union> set (map dv_day device) \<union> set (map ht_day http) in
      report
        (if all_days = {} then Inl (ValueError ''min() arg is an empty sequence'')
         else analyse_selected_day iter topk create_gnn_model step forward st logon device http
                all_days (select_day all_days (malicious_days st))))"

section \<open>Example inputs\<close>

text \<open>
  The scenario of the specification: users A, B and C with A malicious, two logon rows to
  PC1 and two requests to domain1 on day 1 (and one row of another day). Where an example
  is run, the iteration order of a set is the sorted one.
\<close>

definition scenario_state :: "unit detector" where
  "scenario_state = \<lparr>model = None, data = None, node_id = [], node_type = [],
     malicious_users = {''A''}, malicious_days = {}\<rparr>"

definition scenario_logon :: "logon_row list" where
  "scenario_logon =
     [\<lparr>lg_user = ''A'', lg_pc = ''PC1'', lg_day = 1, lg_logon = 2, lg_logoff = 1\<rparr>,
      \<lparr>lg_user = ''B'', lg_pc = ''PC1'', lg_day = 1, lg_logon = 1, lg_logoff = 1\<rparr>,
      \<lparr>lg_user = ''Z'', lg_pc = ''PC9'', lg_day = 2, lg_logon = 1, lg_logoff = 1\<rparr>]"

definition scenario_http :: "http_row list" where
  "scenario_http =
     [\<lparr>ht_user = ''A'', ht_domain = ''domain1'', ht_day = 1, ht_request_count = 7\<rparr>,
      \<lparr>ht_user = ''C'', ht_domain = ''domain1'', ht_day = 1, ht_request_count = 3\<rparr>]"

definition scenario_graph :: graph_data where
  "scenario_graph =
     \<lparr>data_x = [2, 1, 1, 2, 2], data_edge_index = [(0, 3), (1, 3), (0, 4), (2, 4)],
      data_edge_attr = [[2, 1, 0, 0, 0], [1, 1, 0, 0, 0], [0, 0, 0, 0, 7], [0, 0, 0, 0, 3]],
      data_y = [1, 0, 0, 0, 0], data_train_mask = [True, True, True, False, False]\<rparr>"

definition scenario_built :: "unit detector" where
  "scenario_built = scenario_state\<lparr>
     node_id := [(''A'', 0), (''B'', 1), (''C'', 2), (''PC1'', 3), (''domain1'', 4)],
     node_type := [(0, User), (1, User), (2, User), (3, Pc), (4, Domain)],
     data := Some scenario_graph\<rparr>"



text \<open>A day whose only row is a logon of user alice on a pc named like the malicious user mallory.\<close>

definition pc_name_state :: "unit detector" where
  "pc_name_state = \<lparr>model = None, data = None, node_id = [], node_type = [],
     malicious_users = {''mallory''}, malicious_days = {}\<rparr>"

definition pc_name_logon :: "logon_row list" where
  "pc_name_logon =
     [\<lparr>lg_user = ''alice'', lg_pc = ''mallory'', lg_day = 1, lg_logon = 1, lg_logoff = 1\<rparr>]"

text \<open>
  A graph without a positive label among the nodes of the mask (the one label 1 belongs to
  a node outside the mask), in which the four nodes of the mask have the same degree; one
  admissible \<open>topk\<close>, which among equal values takes the higher position first; and a
  training step that leaves the model alone.
\<close>

definition starved_graph :: graph_data where
  "starved_graph =
     \<lparr>data_x = [4, 4, 4, 4, 11], data_edge_index = [], data_edge_attr = [],
      data_y = [0, 0, 0, 0, 1], data_train_mask = [True, True, True, True, False]\<rparr>"

definition topk_high :: "nat list \<Rightarrow> nat \<Rightarrow> nat list" where
  "topk_high vals k = take k (sort_key (\<lambda>j. - int (vals ! j)) (rev [0..<length vals]))"

definition idle_step :: "unit \<Rightarrow> graph_data \<Rightarrow> unit \<times> real" where
  "idle_step m d = (m, 0)"

text \<open>
  A network whose logit is 0 at every node; a day whose only user has the empty name, which
  is also in \<open>malicious_users\<close>; a trained detector with 51 users on one pc; the
  scenario after training.
\<close>

definition zero_forward :: "unit \<Rightarrow> nat list \<Rightarrow> (nat \<times> nat) list \<Rightarrow> nat \<Rightarrow> real" where
  "zero_forward m xs edge_index i = 0"

definition crowd_graph :: graph_data where
  "crowd_graph =
     \<lparr>data_x = replicate 51 1 @ [51], data_edge_index = map (\<lambda>i. (i, 51)) [0..<51],
      data_edge_attr = replicate 51 [1, 1, 0, 0, 0], data_y = replicate 3 1 @ replicate 49 0,
      data_train_mask = replicate 51 True @ [False]\<rparr>"

definition crowd_trained :: "unit detector" where
  "crowd_trained = \<lparr>model = Some (), data = Some crowd_graph,
     node_id = map (\<lambda>i. (replicate (Suc i) CHR ''u'', i)) [0..<51] @ [(''PC1'', 51)],
     node_type = map (\<lambda>i. (i, User)) [0..<51] @ [(51, Pc)],
     malicious_users = {}, malicious_days = {}\<rparr>"

definition nameless_state :: "unit detector" where
  "nameless_state = \<lparr>model = None, data = None, node_id = [], node_type = [],
     malicious_users = {''''}, malicious_days = {}\<rparr>"

definition nameless_logon :: "logon_row list" where
  "nameless_logon =
     [\<lparr>lg_user = '''', lg_pc = ''PC1'', lg_day = 1, lg_logon = 1, lg_logoff = 1\<rparr>]"

definition nameless_built :: "unit detector" where
  "nameless_built = nameless_state\<lparr>
     node_id := [('''', 0), (''PC1'', 1)], node_type := [(0, User), (1, Pc)],
     data := Some \<lparr>data_x = [1, 1], data_edge_index = [(0, 1)],
       data_edge_attr = [[1, 1, 0, 0, 0]], data_y = [1, 0],
       data_train_mask = [True, False]\<rparr>\<rparr>"

definition scenario_trained :: "unit detector" where
  "scenario_trained = scenario_built\<lparr>model := Some ()\<rparr>"

section \<open>Properties of the day selection\<close>

lemma min_key_loop_first_least:
  "sorted (b # xs) \<Longrightarrow>
     min_key_loop key b xs \<in> set (b # xs) \<and>
     (\<forall>a\<in>set (b # xs). key (min_key_loop key b xs) \<le> key a) \<and>
     (\<forall>a\<in>set (b # xs). key a = key (min_key_loop key b xs) \<longrightarrow> min_key_loop key b xs \<le> a)"
proof (induction xs arbitrary: b)
  case Nil
  then show ?case by simp
next
  case (Cons x xs)
  let ?b' = "if key x < key b then x else b"
  let ?r = "min_key_loop key ?b' xs"
  from Cons.prems have sb: "sorted (?b' # xs)" by auto
  from Cons.prems have bx: "b \<le> x" by simp
  note ih = Cons.IH [OF sb]
  have r_in: "?r \<in> set (?b' # xs)" using ih by blast
  have r_le: "\<forall>a\<in>set (?b' # xs). key ?r \<le> key a" using ih by blast
  have r_tie: "\<forall>a\<in>set (?b' # xs). key a = key ?r \<longrightarrow> ?r \<le> a" using ih by blast
  have rb': "key ?r \<le> key ?b'" using r_le by simp
  have "?r \<in> set (b # x # xs)" using r_in by (auto split: if_splits)
  moreover have "\<forall>a\<in>set (b # x # xs). key ?r \<le> key a"
    using r_le rb' by (auto split: if_splits)
  moreover have "\<forall>a\<in>set (b # x # xs). key a = key ?r \<longrightarrow> ?r \<le> a"
  proof
    fix a assume a: "a \<in> set (b # x # xs)"
    show "key a = key ?r \<longrightarrow> ?r \<le> a"
    proof
      assume k: "key a = key ?r"
      show "?r \<le> a"
      proof (cases "a \<in> set (?b' # xs)")
        case True
        then show ?thesis using r_tie k by blast
      next
        case False
        show ?thesis
        proof (cases "key x < key b")
          case True
          with False a have "a = b" by auto
          with True rb' k show ?thesis by simp
        next
          case False
          with \<open>a \<notin> set (?b' # xs)\<close> a have ax: "a = x" by auto
          from False rb' k ax have "key b = key ?r" by simp
          moreover have "b \<in> set (?b' # xs)" using False by simp
          ultimately have "?r \<le> b" using r_tie by blast
          with bx ax show ?thesis by simp
        qed
      qed
    qed
  qed
  ultimately show ?case by simp
qed

lemma select_day_inter:
  assumes "finite A" "finite M" "A \<inter> M \<noteq> {}"
  shows "select_day A M = Some (Min (A \<inter> M))"
proof -
  have fin: "finite (A \<inter> M)" using assms by simp
  have ne: "sorted_list_of_set (A \<inter> M) \<noteq> []" using fin assms(3) by simp
  then obtain f r where fr: "sorted_list_of_set (A \<inter> M) = f # r" by (cases "sorted_list_of_set (A \<inter> M)") auto
  have "f = Min (A \<inter> M)"
    using fr fin assms(3)
    by (metis list.sel(1) sorted_list_of_set_nonempty)
  moreover have "M \<noteq> {}" using assms(3) by auto
  ultimately show ?thesis by (simp add: select_day_def fr)
qed

lemma select_day_closest:
  assumes "finite A" "finite M" "A \<noteq> {}" "A \<inter> M = {}" "M \<noteq> {}"
  shows "\<exists>d. select_day A M = Some d \<and> d \<in> A \<and>
          (\<forall>a\<in>A. \<bar>d - Min M\<bar> \<le> \<bar>a - Min M\<bar>) \<and>
          (\<forall>a\<in>A. \<bar>a - Min M\<bar> = \<bar>d - Min M\<bar> \<longrightarrow> d \<le> a)"
proof -
  obtain t ms where m: "sorted_list_of_set M = t # ms"
    using assms(2,5) by (cases "sorted_list_of_set M") auto
  have t: "t = Min M" using m assms(2,5) by (metis list.sel(1) sorted_list_of_set_nonempty)
  obtain b xs where a: "sorted_list_of_set A = b # xs"
    using assms(1,3) by (cases "sorted_list_of_set A") auto
  have srt: "sorted (b # xs)" using a by (metis sorted_sorted_list_of_set)
  have st: "set (b # xs) = A" using a assms(1) by (metis set_sorted_list_of_set)
  let ?d = "min_key_loop (\<lambda>x. \<bar>x - t\<bar>) b xs"
  have sel: "select_day A M = Some ?d"
    using assms(3,4,5) by (simp add: select_day_def m a min_key_def)
  from min_key_loop_first_least [OF srt, of "\<lambda>x. \<bar>x - t\<bar>"]
  show ?thesis unfolding st t sel by blast
qed

lemma select_day_latest:
  assumes "A \<noteq> {}" "M = {}"
  shows "select_day A M = Some (Max A)"
  using assms by (simp add: select_day_def latest_day_def)

text \<open>
  Claim C1. For finite sets of days with \<open>all_days\<close> non-empty, the day selection returns a
  day of \<open>all_days\<close>: the least day of \<open>all_days \<inter> malicious_days\<close> when that set is
  non-empty; otherwise, when \<open>malicious_days\<close> is non-empty, a day of \<open>all_days\<close> whose
  distance to the least malicious day is least, and the earliest among the days at that
  distance; otherwise the greatest day of \<open>all_days\<close>.
\<close>

theorem select_day_spec:
  assumes "finite A" and "finite M" and "A \<noteq> {}"
  shows "\<exists>d. select_day A M = Some d \<and> d \<in> A \<and>
     (A \<inter> M \<noteq> {} \<longrightarrow> d = Min (A \<inter> M)) \<and>
     (A \<inter> M = {} \<and> M \<noteq> {} \<longrightarrow>
        (\<forall>a\<in>A. \<bar>d - Min M\<bar> \<le> \<bar>a - Min M\<bar>) \<and>
        (\<forall>a\<in>A. \<bar>a - Min M\<bar> = \<bar>d - Min M\<bar> \<longrightarrow> d \<le> a)) \<and>
     (A \<inter> M = {} \<and> M = {} \<longrightarrow> d = Max A)"
proof (cases "A \<inter> M \<noteq> {}")
  case True
  have "Min (A \<inter> M) \<in> A \<inter> M" using True assms by (intro Min_in) auto
  then show ?thesis using select_day_inter [OF assms(1,2) True] True by auto
next
  case False
  show ?thesis
  proof (cases "M = {}")
    case True
    have "Max A \<in> A" using assms by (intro Max_in) auto
    then show ?thesis using select_day_latest [OF assms(3) True] True by auto
  next
    case ne: False
    from select_day_closest [OF assms] False ne show ?thesis by auto
  qed
qed

theorem select_day_spec_witness:
  "finite {1, 3, 7 :: int} \<and> finite {5 :: int} \<and> {1, 3, 7 :: int} \<noteq> {} \<and>
   {1, 3, 7 :: int} \<inter> {5} = {} \<and> select_day {1, 3, 7} {5} = Some 3 \<and>
   \<bar>3 - Min {5}\<bar> \<le> \<bar>7 - Min {5 :: int}\<bar>"
proof -
  have h: "finite {1, 3, 7 :: int}" "finite {5 :: int}" "{1, 3, 7 :: int} \<noteq> {}"
    by simp_all
  have e: "select_day {1, 3, 7} {5} = Some 3"
    by code_simp
  from select_day_spec [OF h] e h show ?thesis
    by simp
qed

section \<open>Properties of the graph construction\<close>

lemma add_node_apply:
  "add_node k a (nid, nty, idx) = (AList.update a idx nid, AList.update idx k nty, Suc idx)"
  by (simp add: add_node_def)

lemma fold_add_node_idx:
  "snd (snd (fold (add_node k) names (nid, nty, idx))) = idx + length names"
  by (induction names arbitrary: nid nty idx) (simp_all add: add_node_apply)

lemma fold_add_node_type:
  "map_of (fst (snd (fold (add_node k) names (nid, nty, idx)))) i =
     (if idx \<le> i \<and> i < idx + length names then Some k else map_of nty i)"
proof (induction names arbitrary: nid nty idx)
  case Nil
  then show ?case by auto
next
  case (Cons a names)
  show ?case
    by (auto simp add: add_node_apply Cons.IH update_conv')
qed

lemma fold_add_node_keys:
  "fst ` set (fst (fold (add_node k) names (nid, nty, idx))) = fst ` set nid \<union> set names"
proof (induction names arbitrary: nid nty idx)
  case Nil
  then show ?case by simp
next
  case (Cons a names)
  show ?case
    by (auto simp add: add_node_apply Cons.IH dom_update)
qed

lemma fold_add_node_distinct:
  "distinct (map fst nid) \<Longrightarrow> distinct (map fst (fst (fold (add_node k) names (nid, nty, idx))))"
proof (induction names arbitrary: nid nty idx)
  case Nil
  then show ?case by simp
next
  case (Cons a names)
  show ?case
    using Cons.IH [of "AList.update a idx nid"] Cons.prems
    by (simp add: add_node_apply distinct_update)
qed

lemma set_update_cases:
  "p \<in> set (AList.update k v al) \<Longrightarrow> p = (k, v) \<or> p \<in> set al"
  by (induction al) (auto split: if_splits)

lemma fold_add_node_values:
  "(\<forall>p\<in>set nid. snd p < idx) \<Longrightarrow>
     \<forall>p\<in>set (fst (fold (add_node k) names (nid, nty, idx))). snd p < idx + length names"
proof (induction names arbitrary: nid nty idx)
  case Nil
  then show ?case by simp
next
  case (Cons a names)
  have "\<forall>p\<in>set (AList.update a idx nid). snd p < Suc idx"
    using Cons.prems by (auto simp: less_Suc_eq dest!: set_update_cases)
  from Cons.IH [OF this] show ?case by (simp add: add_node_apply)
qed

lemma assign_nodes_parts:
  obtains n1 t1 n2 t2 n3 t3 where
    "fold (add_node User) us ([], [], 0) = (n1, t1, length us)"
    "fold (add_node Pc) ps (n1, t1, length us) = (n2, t2, length us + length ps)"
    "fold (add_node Domain) ds (n2, t2, length us + length ps) = (n3, t3, length us + length ps + length ds)"
    "assign_nodes us ps ds = (n3, t3, length us + length ps + length ds)"
proof -
  obtain n1 t1 i1 where f1: "fold (add_node User) us ([], [], 0) = (n1, t1, i1)"
    by (rule prod_cases3)
  have i1: "i1 = length us"
    using fold_add_node_idx [of User us "[]" "[]" 0] f1 by simp
  obtain n2 t2 i2 where f2: "fold (add_node Pc) ps (n1, t1, i1) = (n2, t2, i2)"
    by (rule prod_cases3)
  have i2: "i2 = length us + length ps"
    using fold_add_node_idx [of Pc ps n1 t1 i1] f2 i1 by simp
  obtain n3 t3 i3 where f3: "fold (add_node Domain) ds (n2, t2, i2) = (n3, t3, i3)"
    by (rule prod_cases3)
  have i3: "i3 = length us + length ps + length ds"
    using fold_add_node_idx [of Domain ds n2 t2 i2] f3 i2 by simp
  have "assign_nodes us ps ds = (n3, t3, i3)"
    by (simp add: assign_nodes_def f1 f2 f3)
  then show ?thesis using that f1 f2 f3 i1 i2 i3 by simp
qed

lemma assign_nodes_count:
  "snd (snd (assign_nodes us ps ds)) = length us + length ps + length ds"
  by (rule assign_nodes_parts [of us ps ds]) simp

lemma assign_nodes_type:
  "map_of (fst (snd (assign_nodes us ps ds))) i =
     (if i < length us then Some User
      else if i < length us + length ps then Some Pc
      else if i < length us + length ps + length ds then Some Domain
      else None)"
proof (rule assign_nodes_parts [of us ps ds])
  fix n1 t1 n2 t2 n3 t3
  assume f1: "fold (add_node User) us ([], [], 0) = (n1, t1, length us)"
    and f2: "fold (add_node Pc) ps (n1, t1, length us) = (n2, t2, length us + length ps)"
    and f3: "fold (add_node Domain) ds (n2, t2, length us + length ps) =
               (n3, t3, length us + length ps + length ds)"
    and a: "assign_nodes us ps ds = (n3, t3, length us + length ps + length ds)"
  have t1: "map_of t1 i = (if i < length us then Some User else None)"
    using fold_add_node_type [of User us "[]" "[]" 0 i] f1 by simp
  have t2: "map_of t2 i =
      (if length us \<le> i \<and> i < length us + length ps then Some Pc else map_of t1 i)"
    using fold_add_node_type [of Pc ps n1 t1 "length us" i] f2 by simp
  have t3: "map_of t3 i =
      (if length us + length ps \<le> i \<and> i < length us + length ps + length ds
       then Some Domain else map_of t2 i)"
    using fold_add_node_type [of Domain ds n2 t2 "length us + length ps" i] f3 by simp
  show ?thesis
    by (simp add: a t1 t2 t3)
qed

lemma assign_nodes_keys:
  "fst ` set (fst (assign_nodes us ps ds)) = set us \<union> set ps \<union> set ds"
proof (rule assign_nodes_parts [of us ps ds])
  fix n1 t1 n2 t2 n3 t3
  assume f1: "fold (add_node User) us ([], [], 0) = (n1, t1, length us)"
    and f2: "fold (add_node Pc) ps (n1, t1, length us) = (n2, t2, length us + length ps)"
    and f3: "fold (add_node Domain) ds (n2, t2, length us + length ps) =
               (n3, t3, length us + length ps + length ds)"
    and a: "assign_nodes us ps ds = (n3, t3, length us + length ps + length ds)"
  have k1: "fst ` set n1 = set us"
    using fold_add_node_keys [of User us "[]" "[]" 0] f1 by simp
  have k2: "fst ` set n2 = fst ` set n1 \<union> set ps"
    using fold_add_node_keys [of Pc ps n1 t1 "length us"] f2 by simp
  have k3: "fst ` set n3 = fst ` set n2 \<union> set ds"
    using fold_add_node_keys [of Domain ds n2 t2 "length us + length ps"] f3 by simp
  show ?thesis
    by (simp add: a k1 k2 k3)
qed

lemma assign_nodes_distinct:
  "distinct (map fst (fst (assign_nodes us ps ds)))"
proof (rule assign_nodes_parts [of us ps ds])
  fix n1 t1 n2 t2 n3 t3
  assume f1: "fold (add_node User) us ([], [], 0) = (n1, t1, length us)"
    and f2: "fold (add_node Pc) ps (n1, t1, length us) = (n2, t2, length us + length ps)"
    and f3: "fold (add_node Domain) ds (n2, t2, length us + length ps) =
               (n3, t3, length us + length ps + length ds)"
    and a: "assign_nodes us ps ds = (n3, t3, length us + length ps + length ds)"
  have d1: "distinct (map fst n1)"
    using fold_add_node_distinct [of "[]" User us "[]" 0] f1 by simp
  have d2: "distinct (map fst n2)"
    using fold_add_node_distinct [OF d1, of Pc ps t1 "length us"] f2 by simp
  have d3: "distinct (map fst n3)"
    using fold_add_node_distinct [OF d2, of Domain ds t2 "length us + length ps"] f3 by simp
  show ?thesis
    by (simp add: a d3)
qed

lemma assign_nodes_values:
  "\<forall>p\<in>set (fst (assign_nodes us ps ds)). snd p < length us + length ps + length ds"
proof (rule assign_nodes_parts [of us ps ds])
  fix n1 t1 n2 t2 n3 t3
  assume f1: "fold (add_node User) us ([], [], 0) = (n1, t1, length us)"
    and f2: "fold (add_node Pc) ps (n1, t1, length us) = (n2, t2, length us + length ps)"
    and f3: "fold (add_node Domain) ds (n2, t2, length us + length ps) =
               (n3, t3, length us + length ps + length ds)"
    and a: "assign_nodes us ps ds = (n3, t3, length us + length ps + length ds)"
  have v1: "\<forall>p\<in>set n1. snd p < length us"
    using fold_add_node_values [of "[]" 0 User us "[]"] f1 by simp
  have v2: "\<forall>p\<in>set n2. snd p < length us + length ps"
    using fold_add_node_values [OF v1, of Pc ps t1] f2 by simp
  have v3: "\<forall>p\<in>set n3. snd p < length us + length ps + length ds"
    using fold_add_node_values [OF v2, of Domain ds t2] f3 by simp
  show ?thesis
    by (simp add: a v3)
qed

lemma set_iteration_distinct: "set_iteration iter \<Longrightarrow> finite A \<Longrightarrow> distinct (iter A)"
  by (simp add: set_iteration_def)

lemma set_iteration_set: "set_iteration iter \<Longrightarrow> finite A \<Longrightarrow> set (iter A) = A"
  by (simp add: set_iteration_def)

lemma set_iteration_length: "set_iteration iter \<Longrightarrow> finite A \<Longrightarrow> length (iter A) = card A"
  by (metis distinct_card set_iteration_distinct set_iteration_set)

lemma finite_day_users [simp]: "finite (day_users lr dr hr)"
  by (simp add: day_users_def)

lemma finite_day_pcs [simp]: "finite (day_pcs lr dr)"
  by (simp add: day_pcs_def)

lemma finite_day_domains [simp]: "finite (day_domains hr)"
  by (simp add: day_domains_def)

lemma edge_between_present:
  assumes "a \<in> fst ` set nid" and "b \<in> fst ` set nid"
  shows "edge_between nid a b f = [((the (map_of nid a), the (map_of nid b)), f)]"
proof -
  from assms obtain s t where "map_of nid a = Some s" "map_of nid b = Some t"
    by (metis domD dom_map_of_conv_image_fst)
  then show ?thesis by (simp add: edge_between_def)
qed

lemma edge_between_length:
  "length (edge_between nid a b f) = (if a \<in> fst ` set nid \<and> b \<in> fst ` set nid then 1 else 0)"
proof (cases "a \<in> fst ` set nid \<and> b \<in> fst ` set nid")
  case True
  then show ?thesis by (simp add: edge_between_present)
next
  case False
  then have "map_of nid a = None \<or> map_of nid b = None"
    by (metis map_of_eq_None_iff)
  then show ?thesis using False by (auto simp: edge_between_def split: option.splits)
qed

lemma length_concat_indicator:
  "(\<And>r. length (f r) = (if P r then 1 else 0)) \<Longrightarrow>
     length (concat (map f rows)) = length (filter P rows)"
  by (induction rows) simp_all

lemma length_logon_edges:
  "length (logon_edges nid rows) =
     length (filter (\<lambda>r. lg_user r \<in> fst ` set nid \<and> lg_pc r \<in> fst ` set nid) rows)"
  unfolding logon_edges_def by (rule length_concat_indicator) (simp add: edge_between_length)

lemma length_device_edges:
  "length (device_edges nid rows) =
     length (filter (\<lambda>r. dv_user r \<in> fst ` set nid \<and> dv_pc r \<in> fst ` set nid) rows)"
  unfolding device_edges_def by (rule length_concat_indicator) (simp add: edge_between_length)

lemma length_http_edges:
  "length (http_edges nid rows) =
     length (filter (\<lambda>r. ht_user r \<in> fst ` set nid \<and> ht_domain r \<in> fst ` set nid) rows)"
  unfolding http_edges_def by (rule length_concat_indicator) (simp add: edge_between_length)

lemma day_nodes_keys:
  assumes "set_iteration iter"
  shows "fst ` set (fst (day_nodes iter lr dr hr)) =
           day_users lr dr hr \<union> day_pcs lr dr \<union> day_domains hr"
  using assms by (simp add: day_nodes_def assign_nodes_keys set_iteration_set)

lemma day_nodes_count:
  assumes "set_iteration iter"
  shows "snd (snd (day_nodes iter lr dr hr)) =
           card (day_users lr dr hr) + card (day_pcs lr dr) + card (day_domains hr)"
  using assms by (simp add: day_nodes_def assign_nodes_count set_iteration_length)

lemma day_nodes_type:
  assumes "set_iteration iter"
  shows "map_of (fst (snd (day_nodes iter lr dr hr))) i =
     (if i < card (day_users lr dr hr) then Some User
      else if i < card (day_users lr dr hr) + card (day_pcs lr dr) then Some Pc
      else if i < card (day_users lr dr hr) + card (day_pcs lr dr) + card (day_domains hr)
        then Some Domain
      else None)"
  using assms by (simp add: day_nodes_def assign_nodes_type set_iteration_length)

lemma day_rows_known:
  assumes "set_iteration iter"
  shows "r \<in> set lr \<Longrightarrow> lg_user r \<in> fst ` set (fst (day_nodes iter lr dr hr)) \<and>
                           lg_pc r \<in> fst ` set (fst (day_nodes iter lr dr hr))"
    and "r' \<in> set dr \<Longrightarrow> dv_user r' \<in> fst ` set (fst (day_nodes iter lr dr hr)) \<and>
                           dv_pc r' \<in> fst ` set (fst (day_nodes iter lr dr hr))"
    and "r'' \<in> set hr \<Longrightarrow> ht_user r'' \<in> fst ` set (fst (day_nodes iter lr dr hr)) \<and>
                           ht_domain r'' \<in> fst ` set (fst (day_nodes iter lr dr hr))"
  unfolding day_nodes_keys [OF assms]
  by (auto simp: day_users_def day_pcs_def day_domains_def)

lemma day_edges_length:
  assumes "set_iteration iter"
  shows "length (day_edges (fst (day_nodes iter lr dr hr)) lr dr hr) =
           length lr + length dr + length hr"
proof -
  let ?nid = "fst (day_nodes iter lr dr hr)"
  have "filter (\<lambda>r. lg_user r \<in> fst ` set ?nid \<and> lg_pc r \<in> fst ` set ?nid) lr = lr"
    using day_rows_known(1) [OF assms] by (simp add: filter_id_conv)
  moreover have "filter (\<lambda>r. dv_user r \<in> fst ` set ?nid \<and> dv_pc r \<in> fst ` set ?nid) dr = dr"
    using day_rows_known(2) [OF assms] by (simp add: filter_id_conv)
  moreover have "filter (\<lambda>r. ht_user r \<in> fst ` set ?nid \<and> ht_domain r \<in> fst ` set ?nid) hr = hr"
    using day_rows_known(3) [OF assms] by (simp add: filter_id_conv)
  ultimately show ?thesis
    by (simp add: day_edges_def length_logon_edges length_device_edges length_http_edges)
qed

lemma length_bump [simp]: "length (bump i xs) = length xs"
  by (simp add: bump_def)

lemma length_degree_features [simp]: "length (degree_features n edges) = n"
proof -
  have "length (fold (\<lambda>(s, t) xs. bump t (bump s xs)) edges xs) = length xs" for xs
    by (induction edges arbitrary: xs) (auto split: prod.splits)
  then show ?thesis by (simp add: degree_features_def)
qed

lemma build_graph_eq:
  assumes "day_nodes iter (logon_on d lg) (device_on d dv) (http_on d ht) = (nid, nty, n)"
    and "es = day_edges nid (logon_on d lg) (device_on d dv) (http_on d ht)"
    and "g = \<lparr>data_x = degree_features n (map fst es), data_edge_index = map fst es,
              data_edge_attr = map snd es,
              data_y = fst (label_nodes (malicious_users st) nid nty n),
              data_train_mask = snd (label_nodes (malicious_users st) nid nty n)\<rparr>"
  shows "build_graph iter st lg dv ht d =
     (if es = [] then (st\<lparr>node_id := nid, node_type := nty\<rparr>, None)
      else (st\<lparr>node_id := nid, node_type := nty, data := Some g\<rparr>, Some g))"
  using assms by (simp add: build_graph_def Let_def split: prod.split)

lemma build_graph_split:
  obtains nid nty n es g where
    "day_nodes iter (logon_on d lg) (device_on d dv) (http_on d ht) = (nid, nty, n)"
    "es = day_edges nid (logon_on d lg) (device_on d dv) (http_on d ht)"
    "g = \<lparr>data_x = degree_features n (map fst es), data_edge_index = map fst es,
              data_edge_attr = map snd es,
              data_y = fst (label_nodes (malicious_users st) nid nty n),
              data_train_mask = snd (label_nodes (malicious_users st) nid nty n)\<rparr>"
    "build_graph iter st lg dv ht d =
     (if es = [] then (st\<lparr>node_id := nid, node_type := nty\<rparr>, None)
      else (st\<lparr>node_id := nid, node_type := nty, data := Some g\<rparr>, Some g))"
proof -
  obtain nid nty n where dn: "day_nodes iter (logon_on d lg) (device_on d dv) (http_on d ht) = (nid, nty, n)"
    by (rule prod_cases3)
  show ?thesis
    by (rule that [OF dn refl refl]) (rule build_graph_eq [OF dn refl refl])
qed

lemma build_graph_node_id:
  "node_id (fst (build_graph iter st lg dv ht d)) =
     fst (day_nodes iter (logon_on d lg) (device_on d dv) (http_on d ht))"
  by (rule build_graph_split [of iter d lg dv ht st]) simp

lemma build_graph_node_type:
  "node_type (fst (build_graph iter st lg dv ht d)) =
     fst (snd (day_nodes iter (logon_on d lg) (device_on d dv) (http_on d ht)))"
  by (rule build_graph_split [of iter d lg dv ht st]) simp

lemma build_graph_None_iff:
  "snd (build_graph iter st lg dv ht d) = None \<longleftrightarrow>
     day_edges (fst (day_nodes iter (logon_on d lg) (device_on d dv) (http_on d ht)))
       (logon_on d lg) (device_on d dv) (http_on d ht) = []"
  by (rule build_graph_split [of iter d lg dv ht st]) simp

lemma build_graph_Some:
  assumes "build_graph iter st lg dv ht d = (st', Some g)"
  shows "data_edge_index g =
           map fst (day_edges (fst (day_nodes iter (logon_on d lg) (device_on d dv) (http_on d ht)))
             (logon_on d lg) (device_on d dv) (http_on d ht))"
    and "length (data_x g) = snd (snd (day_nodes iter (logon_on d lg) (device_on d dv) (http_on d ht)))"
    and "data_y g = fst (label_nodes (malicious_users st) (node_id st') (node_type st') (length (data_x g)))"
    and "data_train_mask g = snd (label_nodes (malicious_users st) (node_id st') (node_type st') (length (data_x g)))"
    and "data st' = Some g"
    and "node_id st' = fst (day_nodes iter (logon_on d lg) (device_on d dv) (http_on d ht))"
    and "node_type st' = fst (snd (day_nodes iter (logon_on d lg) (device_on d dv) (http_on d ht)))"
    and "malicious_users st' = malicious_users st"
    and "model st' = model st"
  using assms
  by (rule_tac [!] build_graph_split [of iter d lg dv ht st]) (auto split: if_splits)

lemma set_iteration_sorted: "set_iteration (sorted_list_of_set :: string set \<Rightarrow> string list)"
  by (simp add: set_iteration_def)

lemma scenario_build:
  "build_graph sorted_list_of_set scenario_state scenario_logon [] scenario_http 1 =
     (scenario_built, Some scenario_graph)"
  by code_simp

lemma build_graph_None_rows:
  assumes "set_iteration iter"
  shows "snd (build_graph iter st lg dv ht d) = None \<longleftrightarrow>
           logon_on d lg = [] \<and> device_on d dv = [] \<and> http_on d ht = []"
proof -
  have "snd (build_graph iter st lg dv ht d) = None \<longleftrightarrow>
      length (day_edges (fst (day_nodes iter (logon_on d lg) (device_on d dv) (http_on d ht)))
       (logon_on d lg) (device_on d dv) (http_on d ht)) = 0"
    by (simp add: build_graph_None_iff)
  then show ?thesis
    by (simp add: day_edges_length [OF assms])
qed

lemma day_nodes_no_rows:
  assumes "set_iteration iter"
  shows "day_nodes iter [] [] [] = ([], [], 0)"
proof -
  have "iter ({} :: string set) = []"
    using set_iteration_set [OF assms, of "{}"] by simp
  then show ?thesis
    by (simp add: day_nodes_def day_users_def day_pcs_def day_domains_def assign_nodes_def)
qed

lemma build_graph_data_kept:
  "snd (build_graph iter st lg dv ht d) = None \<Longrightarrow>
     data (fst (build_graph iter st lg dv ht d)) = data st"
  by (rule build_graph_split [of iter d lg dv ht st]) (simp split: if_splits)

lemma build_graph_frame:
  "model (fst (build_graph iter st lg dv ht d)) = model st \<and>
   malicious_users (fst (build_graph iter st lg dv ht d)) = malicious_users st \<and>
   malicious_days (fst (build_graph iter st lg dv ht d)) = malicious_days st"
  by (rule build_graph_split [of iter d lg dv ht st]) simp

text \<open>
  Claim C9. When \<open>build_graph\<close> finds no edge for the selected day it returns \<open>None\<close>
  and leaves \<open>self.data\<close> as it was, so the graph of an earlier build stays, while
  \<open>self.node_id\<close> and \<open>self.node_type\<close> have been replaced by the mappings of the failed
  day. A day without edges is a day without rows, so these mappings are empty: the graph
  that is kept and the index maps no longer belong together.
\<close>

theorem build_graph_failure_state:
  assumes "set_iteration iter"
    and "snd (build_graph iter st lg dv ht d) = None"
  shows "data (fst (build_graph iter st lg dv ht d)) = data st \<and>
         node_id (fst (build_graph iter st lg dv ht d)) =
           fst (day_nodes iter (logon_on d lg) (device_on d dv) (http_on d ht)) \<and>
         node_type (fst (build_graph iter st lg dv ht d)) =
           fst (snd (day_nodes iter (logon_on d lg) (device_on d dv) (http_on d ht))) \<and>
         node_id (fst (build_graph iter st lg dv ht d)) = [] \<and>
         node_type (fst (build_graph iter st lg dv ht d)) = [] \<and>
         model (fst (build_graph iter st lg dv ht d)) = model st \<and>
         malicious_users (fst (build_graph iter st lg dv ht d)) = malicious_users st \<and>
         malicious_days (fst (build_graph iter st lg dv ht d)) = malicious_days st"
proof -
  from assms have rows: "logon_on d lg = []" "device_on d dv = []" "http_on d ht = []"
    by (simp_all add: build_graph_None_rows)
  have "day_nodes iter (logon_on d lg) (device_on d dv) (http_on d ht) = ([], [], 0)"
    unfolding rows by (rule day_nodes_no_rows [OF assms(1)])
  then show ?thesis
    using build_graph_data_kept [OF assms(2)] build_graph_frame [of iter st lg dv ht d]
    by (simp add: build_graph_node_id build_graph_node_type)
qed

theorem build_graph_failure_state_witness:
  "set_iteration (sorted_list_of_set :: string set \<Rightarrow> string list) \<and>
   snd (build_graph sorted_list_of_set scenario_built scenario_logon [] scenario_http 3) = None \<and>
   fst (build_graph sorted_list_of_set scenario_built scenario_logon [] scenario_http 3) =
     scenario_built\<lparr>node_id := [], node_type := []\<rparr> \<and>
   data (scenario_built\<lparr>node_id := [], node_type := []\<rparr>) = Some scenario_graph \<and>
   node_id scenario_built = [(''A'', 0), (''B'', 1), (''C'', 2), (''PC1'', 3), (''domain1'', 4)]"
proof -
  have e: "build_graph sorted_list_of_set scenario_built scenario_logon [] scenario_http 3 =
      (scenario_built\<lparr>node_id := [], node_type := []\<rparr>, None)"
    by code_simp
  have n: "snd (build_graph sorted_list_of_set scenario_built scenario_logon [] scenario_http 3) = None"
    by (simp add: e)
  from build_graph_failure_state [OF set_iteration_sorted n]
  show ?thesis
    using set_iteration_sorted e by (simp add: scenario_built_def)
qed

lemma label_nodes_length:
  "length (fst (label_nodes mal nid nty n)) = n \<and> length (snd (label_nodes mal nid nty n)) = n"
proof -
  have "length (fst (fold (\<lambda>(name, idx) (ys, msk).
             (if name \<in> mal then ys[idx := 1] else ys,
              if map_of nty idx = Some User then msk[idx := True] else msk)) nid (ys, msk))) = length ys \<and>
        length (snd (fold (\<lambda>(name, idx) (ys, msk).
             (if name \<in> mal then ys[idx := 1] else ys,
              if map_of nty idx = Some User then msk[idx := True] else msk)) nid (ys, msk))) = length msk"
    for ys :: "nat list" and msk
    by (induction nid arbitrary: ys msk) (auto split: prod.splits)
  then show ?thesis by (simp add: label_nodes_def)
qed

lemma label_nodes_label:
  assumes "i < n"
  shows "fst (label_nodes mal nid nty n) ! i =
           (if \<exists>name. (name, i) \<in> set nid \<and> name \<in> mal then 1 else 0)"
proof -
  have "i < length ys \<Longrightarrow>
        fst (fold (\<lambda>(name, idx) (ys, msk).
             (if name \<in> mal then ys[idx := 1] else ys,
              if map_of nty idx = Some User then msk[idx := True] else msk)) nid (ys, msk)) ! i =
        (if \<exists>name. (name, i) \<in> set nid \<and> name \<in> mal then 1 else ys ! i)"
    for ys :: "nat list" and msk
  proof (induction nid arbitrary: ys msk)
    case Nil
    then show ?case by simp
  next
    case (Cons p nid)
    obtain name idx where p: "p = (name, idx)" by (cases p)
    show ?case
    proof (cases "name \<in> mal")
      case True
      have "i < length (ys[idx := 1])" using Cons.prems by simp
      from Cons.IH [OF this] True p Cons.prems show ?thesis
        by (auto simp: nth_list_update)
    next
      case False
      from Cons.IH [OF Cons.prems] False p show ?thesis
        by auto
    qed
  qed
  from this [of "replicate n 0" "replicate n False"] assms show ?thesis
    by (simp add: label_nodes_def)
qed

lemma pc_name_build:
  "build_graph sorted_list_of_set pc_name_state pc_name_logon [] [] 1 =
     (pc_name_state\<lparr>node_id := [(''alice'', 0), (''mallory'', 1)],
        node_type := [(0, User), (1, Pc)],
        data := Some \<lparr>data_x = [1, 1], data_edge_index = [(0, 1)],
          data_edge_attr = [[1, 1, 0, 0, 0]], data_y = [0, 1],
          data_train_mask = [True, False]\<rparr>\<rparr>,
      Some \<lparr>data_x = [1, 1], data_edge_index = [(0, 1)],
          data_edge_attr = [[1, 1, 0, 0, 0]], data_y = [0, 1],
          data_train_mask = [True, False]\<rparr>)"
  by code_simp

text \<open>
  Claim C2, as the code has it. The label of node \<open>i\<close> of a built graph is 1 exactly when
  the key that \<open>node_id\<close> maps to \<open>i\<close> is in \<open>malicious_users\<close>, and 0 otherwise; the
  type of the node plays no part (it decides \<open>train_mask\<close> only).
\<close>

theorem build_graph_labels:
  assumes "build_graph iter st lg dv ht d = (st', Some g)" and "i < num_nodes g"
  shows "(data_y g ! i = 1 \<longleftrightarrow>
            (\<exists>name. map_of (node_id st') name = Some i \<and> name \<in> malicious_users st)) \<and>
         (data_y g ! i = 0 \<longleftrightarrow>
            \<not> (\<exists>name. map_of (node_id st') name = Some i \<and> name \<in> malicious_users st))"
proof -
  note b = build_graph_Some [OF assms(1)]
  have dist: "distinct (map fst (node_id st'))"
    by (simp add: b(6) day_nodes_def assign_nodes_distinct)
  then have m: "map_of (node_id st') name = Some i \<longleftrightarrow> (name, i) \<in> set (node_id st')" for name
    by simp
  have "data_y g ! i =
      (if \<exists>name. (name, i) \<in> set (node_id st') \<and> name \<in> malicious_users st then 1 else 0)"
    using assms(2) by (simp add: b(3) num_nodes_def label_nodes_label)
  then show ?thesis
    by (simp add: m)
qed

theorem build_graph_labels_witness:
  "build_graph sorted_list_of_set pc_name_state pc_name_logon [] [] 1 =
     (pc_name_state\<lparr>node_id := [(''alice'', 0), (''mallory'', 1)],
        node_type := [(0, User), (1, Pc)],
        data := Some \<lparr>data_x = [1, 1], data_edge_index = [(0, 1)],
          data_edge_attr = [[1, 1, 0, 0, 0]], data_y = [0, 1],
          data_train_mask = [True, False]\<rparr>\<rparr>,
      Some \<lparr>data_x = [1, 1], data_edge_index = [(0, 1)],
          data_edge_attr = [[1, 1, 0, 0, 0]], data_y = [0, 1],
          data_train_mask = [True, False]\<rparr>) \<and>
   (1 :: nat) < num_nodes \<lparr>data_x = [1, 1], data_edge_index = [(0, 1)],
          data_edge_attr = [[1, 1, 0, 0, 0]], data_y = [0, 1],
          data_train_mask = [True, False]\<rparr> \<and>
   (\<exists>name. map_of [(''alice'', 0 :: nat), (''mallory'', 1)] name = Some 1 \<and>
      name \<in> malicious_users pc_name_state)"
proof -
  have n: "(1 :: nat) < num_nodes \<lparr>data_x = [1, 1], data_edge_index = [(0, 1)],
          data_edge_attr = [[1, 1, 0, 0, 0]], data_y = [0, 1],
          data_train_mask = [True, False]\<rparr>"
    by (simp add: num_nodes_def)
  from build_graph_labels [OF pc_name_build n]
  show ?thesis
    using pc_name_build n by simp
qed

text \<open>
  Claim C2 as stated fails: on the day of \<open>pc_name_logon\<close> node 1 is the pc
  \<open>mallory\<close>, a key of \<open>malicious_users\<close>, and its label is 1.
\<close>

theorem pc_label_counterexample:
  "map_option data_y (snd (build_graph sorted_list_of_set pc_name_state pc_name_logon [] [] 1)) =
     Some [0, 1] \<and>
   map_of (node_type (fst (build_graph sorted_list_of_set pc_name_state pc_name_logon [] [] 1))) 1
     = Some Pc \<and>
   map_of (node_id (fst (build_graph sorted_list_of_set pc_name_state pc_name_logon [] [] 1)))
     ''mallory'' = Some 1 \<and>
   ''mallory'' \<in> malicious_users pc_name_state"
proof -
  have m: "''mallory'' \<in> malicious_users pc_name_state"
    by (simp add: pc_name_state_def)
  show ?thesis
    using m by (simp add: pc_name_build)
qed

section \<open>Properties of the training loop\<close>

lemma top_k_choiceD:
  assumes "top_k_choice topk" and "k \<le> length vals"
  shows "length (topk vals k) = k"
    and "distinct (topk vals k)"
    and "set (topk vals k) \<subseteq> {0..<length vals}"
    and "a \<in> set (topk vals k) \<Longrightarrow> b < length vals \<Longrightarrow> b \<notin> set (topk vals k) \<Longrightarrow>
           vals ! b \<le> vals ! a"
  using assms unfolding top_k_choice_def by blast+

lemma topk_high_largest:
  assumes "a \<in> set (topk_high vals k)" and "b < length vals" and "b \<notin> set (topk_high vals k)"
  shows "vals ! b \<le> vals ! a"
proof -
  let ?f = "\<lambda>j. - int (vals ! j)"
  let ?s = "sort_key ?f (rev [0..<length vals])"
  have "sorted (map ?f (take k ?s) @ map ?f (drop k ?s))"
    by (simp flip: map_append)
  then have le: "\<forall>p\<in>set (map ?f (take k ?s)). \<forall>q\<in>set (map ?f (drop k ?s)). p \<le> q"
    unfolding sorted_append by blast
  have "b \<in> set ?s" using assms(2) by simp
  then have "b \<in> set (take k ?s) \<union> set (drop k ?s)"
    by (metis append_take_drop_id set_append)
  with assms(3) have bd: "b \<in> set (drop k ?s)" by (simp add: topk_high_def)
  have at: "a \<in> set (take k ?s)" using assms(1) by (simp add: topk_high_def)
  have "?f a \<in> set (map ?f (take k ?s))"
    unfolding set_map using at by (rule imageI)
  moreover have "?f b \<in> set (map ?f (drop k ?s))"
    unfolding set_map using bd by (rule imageI)
  ultimately have "?f a \<le> ?f b" using le by blast
  then show ?thesis by simp
qed

lemma topk_high_choice: "top_k_choice topk_high"
proof -
  have r: "set (topk_high vals k) \<subseteq> {0..<length vals}" for vals k
  proof -
    have "set (topk_high vals k) \<subseteq>
        set (sort_key (\<lambda>j. - int (vals ! j)) (rev [0..<length vals]))"
      unfolding topk_high_def by (rule set_take_subset)
    then show ?thesis by simp
  qed
  have l: "k \<le> length vals \<Longrightarrow> length (topk_high vals k) = k" for vals k
    by (simp add: topk_high_def)
  have d: "distinct (topk_high vals k)" for vals k
    by (simp add: topk_high_def distinct_take)
  show ?thesis
    unfolding top_k_choice_def using r l d topk_high_largest by blast
qed

lemma where_true_set: "set (where_true msk) = {i. i < length msk \<and> msk ! i}"
  by (auto simp: where_true_def)

lemma where_true_distinct: "distinct (where_true msk)"
  by (simp add: where_true_def)

lemma fold_set_one_length: "length (fold (\<lambda>i ys. ys[i := v]) idxs ys) = length ys"
  by (induction idxs arbitrary: ys) simp_all

lemma fold_set_one_nth:
  "j < length ys \<Longrightarrow>
     fold (\<lambda>i ys. ys[i := v]) idxs ys ! j = (if j \<in> set idxs then v else ys ! j)"
proof (induction idxs arbitrary: ys)
  case Nil
  then show ?case by simp
next
  case (Cons i idxs)
  have "j < length (ys[i := v])" using Cons.prems by simp
  from Cons.IH [OF this] Cons.prems show ?case
    by (auto simp: nth_list_update)
qed

lemma positive_count_card:
  assumes "length (data_y d) = length (data_train_mask d)"
  shows "positive_count d =
           card {i. i < length (data_y d) \<and> data_train_mask d ! i \<and> data_y d ! i = 1}"
proof -
  let ?zs = "zip (data_y d) (data_train_mask d)"
  have "filter (\<lambda>l. l = 1) (map fst (filter snd ?zs)) =
        map fst (filter (\<lambda>p. snd p \<and> fst p = 1) ?zs)"
    by (simp add: filter_map comp_def conj_commute)
  then have "positive_count d = length (filter (\<lambda>p. snd p \<and> fst p = 1) ?zs)"
    by (simp add: positive_count_def masked_def)
  also have "\<dots> = card {i. i < length ?zs \<and> snd (?zs ! i) \<and> fst (?zs ! i) = 1}"
    by (simp add: length_filter_conv_card)
  also have "{i. i < length ?zs \<and> snd (?zs ! i) \<and> fst (?zs ! i) = 1} =
      {i. i < length (data_y d) \<and> data_train_mask d ! i \<and> data_y d ! i = 1}"
    using assms by auto
  finally show ?thesis .
qed

lemma top_indices_length:
  assumes "top_k_choice topk"
  shows "length (top_indices topk d) = min 3 (length (train_nodes d))"
  by (simp add: top_indices_def train_nodes_def Let_def top_k_choiceD(1) [OF assms])

lemma top_indices_range:
  assumes "top_k_choice topk"
  shows "set (topk (map (\<lambda>i. data_x d ! i) (where_true (data_train_mask d)))
           (min 3 (length (where_true (data_train_mask d))))) \<subseteq>
         {0..<length (where_true (data_train_mask d))}"
  using top_k_choiceD(3) [OF assms, of "min 3 (length (where_true (data_train_mask d)))"
      "map (\<lambda>i. data_x d ! i) (where_true (data_train_mask d))"]
  by simp

lemma top_indices_subset:
  assumes "top_k_choice topk"
  shows "set (top_indices topk d) \<subseteq> set (train_nodes d)"
  using top_indices_range [OF assms, of d]
  by (auto simp: top_indices_def train_nodes_def Let_def)

lemma top_indices_distinct:
  assumes "top_k_choice topk"
  shows "distinct (top_indices topk d)"
proof -
  let ?ui = "where_true (data_train_mask d)"
  let ?tk = "topk (map (\<lambda>i. data_x d ! i) ?ui) (min 3 (length ?ui))"
  have r: "set ?tk \<subseteq> {0..<length ?ui}"
    by (rule top_indices_range [OF assms])
  have dt: "distinct ?tk"
    by (rule top_k_choiceD(2) [OF assms]) simp
  have "inj_on (\<lambda>j. ?ui ! j) {0..<length ?ui}"
    using where_true_distinct [of "data_train_mask d"]
    by (auto simp: inj_on_def nth_eq_iff_index_eq)
  then have "inj_on (\<lambda>j. ?ui ! j) (set ?tk)"
    using r by (rule inj_on_subset)
  then show ?thesis
    using dt by (simp add: top_indices_def Let_def distinct_map)
qed

lemma top_indices_largest:
  assumes ch: "top_k_choice topk"
    and "t \<in> set (top_indices topk d)" and "u \<in> set (train_nodes d)"
    and "u \<notin> set (top_indices topk d)"
  shows "data_x d ! u \<le> data_x d ! t"
proof -
  let ?ui = "where_true (data_train_mask d)"
  let ?degs = "map (\<lambda>i. data_x d ! i) ?ui"
  let ?tk = "topk ?degs (min 3 (length ?ui))"
  have r: "set ?tk \<subseteq> {0..<length ?ui}"
    by (rule top_indices_range [OF ch])
  from assms(2) obtain a where a: "a \<in> set ?tk" and t: "t = ?ui ! a"
    by (auto simp: top_indices_def Let_def)
  from assms(3) obtain b where b: "b < length ?ui" and u: "u = ?ui ! b"
    by (auto simp: train_nodes_def in_set_conv_nth)
  have nb: "b \<notin> set ?tk"
    using assms(4) u by (auto simp: top_indices_def Let_def)
  have "?degs ! b \<le> ?degs ! a"
    by (rule top_k_choiceD(4) [OF ch _ a _ nb]) (simp_all add: b)
  moreover have "a < length ?ui" using a r by auto
  ultimately show ?thesis using b t u by simp
qed

lemma positive_fallback_eq:
  "positive_fallback topk d =
     (if positive_count d = 0 \<and> train_nodes d \<noteq> []
      then d\<lparr>data_y := fold (\<lambda>i ys. ys[i := 1]) (top_indices topk d) (data_y d)\<rparr> else d)"
  by (simp add: positive_fallback_def train_nodes_def Let_def)

lemma positive_fallback_frame:
  "data_x (positive_fallback topk d) = data_x d \<and>
   data_edge_index (positive_fallback topk d) = data_edge_index d \<and>
   data_edge_attr (positive_fallback topk d) = data_edge_attr d \<and>
   data_train_mask (positive_fallback topk d) = data_train_mask d \<and>
   length (data_y (positive_fallback topk d)) = length (data_y d)"
  by (simp add: positive_fallback_eq fold_set_one_length)

lemma train_nodes_set:
  "set (train_nodes d) = {i. i < length (data_train_mask d) \<and> data_train_mask d ! i}"
  by (simp add: train_nodes_def where_true_set)

lemma positive_fallback_label:
  assumes "positive_count d = 0" and "train_nodes d \<noteq> []" and "i < length (data_y d)"
  shows "data_y (positive_fallback topk d) ! i =
           (if i \<in> set (top_indices topk d) then 1 else data_y d ! i)"
  using assms by (simp add: positive_fallback_eq fold_set_one_nth)

lemma positive_fallback_count:
  assumes ch: "top_k_choice topk" and wf: "well_formed d" and zero: "positive_count d = 0"
  shows "positive_count (positive_fallback topk d) = min 3 (length (train_nodes d))"
proof (cases "train_nodes d = []")
  case True
  then show ?thesis using zero by (simp add: positive_fallback_eq)
next
  case False
  let ?N = "length (data_y d)"
  let ?msk = "data_train_mask d"
  let ?d' = "positive_fallback topk d"
  from wf have len: "length (data_y d) = length ?msk"
    by (simp add: well_formed_def)
  have "card {i. i < ?N \<and> ?msk ! i \<and> data_y d ! i = 1} = 0"
    using zero positive_count_card [OF len] by simp
  then have none: "{i. i < ?N \<and> ?msk ! i \<and> data_y d ! i = 1} = {}"
    by simp
  have sub: "set (top_indices topk d) \<subseteq> {i. i < ?N \<and> ?msk ! i}"
    using top_indices_subset [OF ch, of d] by (simp add: train_nodes_set len)
  have len': "length (data_y ?d') = length (data_train_mask ?d')"
    using len by (simp add: positive_fallback_frame)
  have "{i. i < ?N \<and> ?msk ! i \<and> data_y ?d' ! i = 1} = set (top_indices topk d)"
  proof (rule set_eqI)
    fix i
    show "i \<in> {i. i < ?N \<and> ?msk ! i \<and> data_y ?d' ! i = 1} \<longleftrightarrow>
          i \<in> set (top_indices topk d)"
    proof (cases "i < ?N")
      case True
      have "?msk ! i \<Longrightarrow> data_y d ! i \<noteq> 1"
        using none True by blast
      then show ?thesis
        using True sub positive_fallback_label [OF zero False True, of topk] by auto
    next
      case False
      then show ?thesis using sub by auto
    qed
  qed
  then have "positive_count ?d' = card (set (top_indices topk d))"
    using positive_count_card [OF len'] by (simp add: positive_fallback_frame)
  also have "\<dots> = length (top_indices topk d)"
    by (rule distinct_card [OF top_indices_distinct [OF ch]])
  finally show ?thesis by (simp add: top_indices_length [OF ch])
qed

lemma positive_fallback_idem:
  assumes ch: "top_k_choice topk" and wf: "well_formed d"
  shows "positive_fallback topk (positive_fallback topk d) = positive_fallback topk d"
proof (cases "positive_count d = 0 \<and> train_nodes d \<noteq> []")
  case True
  then have "positive_count (positive_fallback topk d) = min 3 (length (train_nodes d))"
    using positive_fallback_count [OF ch wf] by simp
  moreover have "0 < length (train_nodes d)" using True by simp
  ultimately have "positive_count (positive_fallback topk d) \<noteq> 0" by simp
  then show ?thesis
    by (simp add: positive_fallback_eq [of topk "positive_fallback topk d"])
next
  case False
  then have "positive_fallback topk d = d" by (auto simp: positive_fallback_eq)
  then show ?thesis by simp
qed

lemma train_epochs_fixed:
  "positive_fallback topk d = d \<Longrightarrow> fst (snd (train_epochs topk step n m d losses)) = d"
  by (induction n arbitrary: m losses) (simp_all add: Let_def split: prod.splits)

lemma train_epochs_data:
  assumes ch: "top_k_choice topk" and wf: "well_formed d"
  shows "fst (snd (train_epochs topk step (Suc n) m d losses)) = positive_fallback topk d"
proof -
  obtain m' loss where st: "step m (positive_fallback topk d) = (m', loss)"
    by (cases "step m (positive_fallback topk d)")
  have "fst (snd (train_epochs topk step (Suc n) m d losses)) =
        fst (snd (train_epochs topk step n m' (positive_fallback topk d) (losses @ [loss])))"
    by (simp add: Let_def st)
  also have "\<dots> = positive_fallback topk d"
    by (rule train_epochs_fixed [OF positive_fallback_idem [OF ch wf]])
  finally show ?thesis .
qed

lemma train_epochs_losses:
  "length (snd (snd (train_epochs topk step n m d losses))) = length losses + n"
  by (induction n arbitrary: m d losses) (simp_all add: Let_def split: prod.splits)

lemma train_epochs_frame:
  "data_x (fst (snd (train_epochs topk step n m d losses))) = data_x d \<and>
   data_edge_index (fst (snd (train_epochs topk step n m d losses))) = data_edge_index d \<and>
   data_train_mask (fst (snd (train_epochs topk step n m d losses))) = data_train_mask d"
proof (induction n arbitrary: m d losses)
  case 0
  show ?case by simp
next
  case (Suc n)
  obtain m' loss where st: "step m (positive_fallback topk d) = (m', loss)"
    by (cases "step m (positive_fallback topk d)")
  show ?case
    using Suc.IH [of m' "positive_fallback topk d" "losses @ [loss]"]
    by (simp add: Let_def st positive_fallback_frame)
qed

lemma train_model_data:
  assumes ch: "top_k_choice topk" and wf: "well_formed d" and "data st = Some d"
  shows "\<exists>st' training_losses.
           train_model topk create step st (Suc n) = Inr (st', training_losses) \<and>
           data st' = Some (positive_fallback topk d) \<and> length training_losses = Suc n"
proof -
  obtain m d' ls where t: "train_epochs topk step (Suc n) create d [] = (m, d', ls)"
    by (rule prod_cases3)
  have "d' = positive_fallback topk d"
    using train_epochs_data [OF ch wf, of step n create "[]"] t by simp
  moreover have "length ls = Suc n"
    using train_epochs_losses [of topk step "Suc n" create d "[]"] t by simp
  ultimately show ?thesis
    using assms(3) t by (simp add: train_model_def)
qed

lemma build_graph_well_formed:
  assumes "build_graph iter st lg dv ht d = (st', Some g)"
  shows "well_formed g"
  using build_graph_Some(3,4) [OF assms]
  by (simp add: well_formed_def label_nodes_length)

lemma starved_well_formed: "well_formed starved_graph"
  by (simp add: well_formed_def starved_graph_def)

lemma starved_count: "positive_count starved_graph = 0"
  by code_simp

lemma starved_fallback:
  "positive_fallback topk_high starved_graph = starved_graph\<lparr>data_y := [0, 1, 1, 1, 1]\<rparr>"
  by code_simp

text \<open>
  Claim C3. Whatever positions \<open>torch.topk\<close> takes among equal degrees: when an epoch
  starts with no positive label among the nodes of the mask, the fallback writes label 1
  to \<open>min(3, |train nodes|)\<close> distinct nodes of the mask, none of which has a smaller degree
  than a node of the mask left out, and to no other node; the count of positive labels
  under the mask is then \<open>min(3, |train nodes|)\<close>. The labels stay as the fallback left them
  through every later epoch and in the state that \<open>train_model\<close> leaves.
\<close>

theorem positive_fallback_injects:
  assumes "top_k_choice topk" and "well_formed d" and "positive_count d = 0"
  shows "set (top_indices topk d) \<subseteq> set (train_nodes d) \<and>
         distinct (top_indices topk d) \<and>
         length (top_indices topk d) = min 3 (length (train_nodes d)) \<and>
         (\<forall>t\<in>set (top_indices topk d). \<forall>u\<in>set (train_nodes d).
            u \<notin> set (top_indices topk d) \<longrightarrow> data_x d ! u \<le> data_x d ! t) \<and>
         (train_nodes d \<noteq> [] \<longrightarrow>
            (\<forall>i<num_nodes d. data_y (positive_fallback topk d) ! i =
               (if i \<in> set (top_indices topk d) then 1 else data_y d ! i))) \<and>
         (train_nodes d = [] \<longrightarrow> positive_fallback topk d = d) \<and>
         positive_count (positive_fallback topk d) = min 3 (length (train_nodes d)) \<and>
         fst (snd (train_epochs topk step (Suc n) m d losses)) = positive_fallback topk d \<and>
         (data st = Some d \<longrightarrow>
            (\<exists>st' training_losses.
               train_model topk create step st (Suc n) = Inr (st', training_losses) \<and>
               data st' = Some (positive_fallback topk d)))"
proof -
  note ch = assms(1) and wf = assms(2) and zero = assms(3)
  have lab: "train_nodes d \<noteq> [] \<longrightarrow>
            (\<forall>i<num_nodes d. data_y (positive_fallback topk d) ! i =
               (if i \<in> set (top_indices topk d) then 1 else data_y d ! i))"
    using wf positive_fallback_label [OF zero, where topk = topk]
    by (simp add: num_nodes_def well_formed_def)
  have big: "\<forall>t\<in>set (top_indices topk d). \<forall>u\<in>set (train_nodes d).
            u \<notin> set (top_indices topk d) \<longrightarrow> data_x d ! u \<le> data_x d ! t"
    using top_indices_largest [OF ch] by blast
  have none: "train_nodes d = [] \<longrightarrow> positive_fallback topk d = d"
    by (simp add: positive_fallback_eq)
  have tm: "data st = Some d \<longrightarrow>
            (\<exists>st' training_losses.
               train_model topk create step st (Suc n) = Inr (st', training_losses) \<and>
               data st' = Some (positive_fallback topk d))"
    using train_model_data [OF ch wf, of st create step n] by blast
  show ?thesis
    using top_indices_subset [OF ch, of d] top_indices_distinct [OF ch, of d]
      top_indices_length [OF ch, of d]
      big lab none positive_fallback_count [OF ch wf zero]
      train_epochs_data [OF ch wf, of step n m losses] tm
    by blast
qed

theorem positive_fallback_injects_witness:
  "top_k_choice topk_high \<and>
   well_formed starved_graph \<and> positive_count starved_graph = 0 \<and>
   data_x starved_graph = [4, 4, 4, 4, 11] \<and>
   train_nodes starved_graph = [0, 1, 2, 3] \<and>
   top_indices topk_high starved_graph = [3, 2, 1] \<and>
   positive_fallback topk_high starved_graph = starved_graph\<lparr>data_y := [0, 1, 1, 1, 1]\<rparr> \<and>
   positive_count (positive_fallback topk_high starved_graph) = 3 \<and>
   fst (snd (train_epochs topk_high idle_step (Suc 24) () starved_graph [])) =
     starved_graph\<lparr>data_y := [0, 1, 1, 1, 1]\<rparr>"
proof -
  have t: "train_nodes starved_graph = [0, 1, 2, 3]"
    by code_simp
  have i: "top_indices topk_high starved_graph = [3, 2, 1]"
    by code_simp
  have x: "data_x starved_graph = [4, 4, 4, 4, 11]"
    by (simp add: starved_graph_def)
  from positive_fallback_injects [OF topk_high_choice starved_well_formed starved_count,
      of idle_step 24 "()" "[]"]
  show ?thesis
    using topk_high_choice starved_well_formed starved_count x t i starved_fallback by simp
qed

text \<open>
  Claim C10. Whatever positions \<open>torch.topk\<close> takes among equal degrees, only the first
  epoch can change the labels: the graph data after epoch \<open>k + 2\<close> is the graph data after
  epoch \<open>k + 1\<close>, on which the fallback does nothing. With a node in the mask and no
  positive label under it, the injection of the first epoch makes the count positive; with
  no node in the mask the data never changes.
\<close>

theorem fallback_at_most_once:
  assumes "top_k_choice topk" and "well_formed d"
  shows "fst (snd (train_epochs topk step (Suc (Suc k)) m d losses)) =
           fst (snd (train_epochs topk step (Suc k) m d losses)) \<and>
         positive_fallback topk (fst (snd (train_epochs topk step (Suc k) m d losses))) =
           fst (snd (train_epochs topk step (Suc k) m d losses)) \<and>
         (train_nodes d \<noteq> [] \<and> positive_count d = 0 \<longrightarrow>
            0 < positive_count (positive_fallback topk d)) \<and>
         (train_nodes d = [] \<longrightarrow> fst (snd (train_epochs topk step k m d losses)) = d)"
proof -
  note ch = assms(1) and wf = assms(2)
  have a: "fst (snd (train_epochs topk step (Suc (Suc k)) m d losses)) =
           fst (snd (train_epochs topk step (Suc k) m d losses))"
    by (simp only: train_epochs_data [OF ch wf])
  have b: "positive_fallback topk (fst (snd (train_epochs topk step (Suc k) m d losses))) =
           fst (snd (train_epochs topk step (Suc k) m d losses))"
    by (simp only: train_epochs_data [OF ch wf] positive_fallback_idem [OF ch wf])
  have c: "train_nodes d \<noteq> [] \<and> positive_count d = 0 \<longrightarrow>
            0 < positive_count (positive_fallback topk d)"
  proof
    assume h: "train_nodes d \<noteq> [] \<and> positive_count d = 0"
    then have "positive_count (positive_fallback topk d) = min 3 (length (train_nodes d))"
      using positive_fallback_count [OF ch wf] by simp
    moreover have "0 < length (train_nodes d)" using h by simp
    ultimately show "0 < positive_count (positive_fallback topk d)" by simp
  qed
  have e: "train_nodes d = [] \<longrightarrow> fst (snd (train_epochs topk step k m d losses)) = d"
  proof
    assume "train_nodes d = []"
    then have "positive_fallback topk d = d" by (simp add: positive_fallback_eq)
    then show "fst (snd (train_epochs topk step k m d losses)) = d"
      by (rule train_epochs_fixed)
  qed
  from a b c e show ?thesis by blast
qed

theorem fallback_at_most_once_witness:
  "top_k_choice topk_high \<and> well_formed starved_graph \<and>
   train_nodes starved_graph \<noteq> [] \<and> positive_count starved_graph = 0 \<and>
   fst (snd (train_epochs topk_high idle_step (Suc 0) () starved_graph [])) \<noteq> starved_graph \<and>
   fst (snd (train_epochs topk_high idle_step (Suc (Suc 0)) () starved_graph [])) =
     fst (snd (train_epochs topk_high idle_step (Suc 0) () starved_graph [])) \<and>
   0 < positive_count (positive_fallback topk_high starved_graph)"
proof -
  have t: "train_nodes starved_graph \<noteq> []"
    by code_simp
  have n: "fst (snd (train_epochs topk_high idle_step (Suc 0) () starved_graph [])) \<noteq> starved_graph"
    by code_simp
  from fallback_at_most_once [OF topk_high_choice starved_well_formed, of idle_step 0 "()" "[]"]
  show ?thesis
    using topk_high_choice starved_well_formed t starved_count n by simp
qed

section \<open>Properties of the prediction\<close>

lemma boost_scores_step:
  assumes "map_of (node_type st) i = Some kind"
  shows "boost_scores st (i # rest) scores =
           boost_scores st rest
             (if known_malicious_user st i then scores(i := clamp (scores i + 0.8) 0.0 1.0)
              else scores)"
  using assms by (simp add: known_malicious_user_def split: option.splits)

lemma boost_scores_total:
  "(\<forall>i\<in>set idxs. map_of (node_type st) i \<noteq> None) \<Longrightarrow>
     \<exists>boosted. boost_scores st idxs scores = Inr boosted"
proof (induction idxs arbitrary: scores)
  case Nil
  then show ?case by simp
next
  case (Cons i idxs)
  from Cons.prems obtain kind where k: "map_of (node_type st) i = Some kind" by auto
  from Cons.prems have "\<forall>i\<in>set idxs. map_of (node_type st) i \<noteq> None" by simp
  from Cons.IH [OF this] show ?case
    unfolding boost_scores_step [OF k] by blast
qed

lemma boost_scores_keys:
  "boost_scores st idxs scores = Inr boosted \<Longrightarrow> \<forall>i\<in>set idxs. map_of (node_type st) i \<noteq> None"
proof (induction idxs arbitrary: scores)
  case Nil
  then show ?case by simp
next
  case (Cons i idxs)
  show ?case
  proof (cases "map_of (node_type st) i")
    case None
    with Cons.prems show ?thesis by simp
  next
    case (Some kind)
    from Cons.prems have "boost_scores st idxs
        (if known_malicious_user st i then scores(i := clamp (scores i + 0.8) 0.0 1.0) else scores)
        = Inr boosted"
      unfolding boost_scores_step [OF Some] .
    from Cons.IH [OF this] Some show ?thesis by simp
  qed
qed

lemma boost_scores_value:
  "boost_scores st idxs scores = Inr boosted \<Longrightarrow> distinct idxs \<Longrightarrow>
     boosted i = (if i \<in> set idxs \<and> known_malicious_user st i
                  then clamp (scores i + 0.8) 0.0 1.0 else scores i)"
proof (induction idxs arbitrary: scores)
  case Nil
  then show ?case by simp
next
  case (Cons j idxs)
  from boost_scores_keys [OF Cons.prems(1)] obtain kind where k: "map_of (node_type st) j = Some kind"
    by auto
  let ?sc = "if known_malicious_user st j then scores(j := clamp (scores j + 0.8) 0.0 1.0) else scores"
  from Cons.prems(1) have r: "boost_scores st idxs ?sc = Inr boosted"
    unfolding boost_scores_step [OF k] .
  from Cons.prems(2) have d: "distinct idxs" and nj: "j \<notin> set idxs" by simp_all
  have "boosted i = (if i \<in> set idxs \<and> known_malicious_user st i
                  then clamp (?sc i + 0.8) 0.0 1.0 else ?sc i)"
    by (rule Cons.IH [OF r d])
  then show ?case using nj by auto
qed

lemma sigmoid_bounds: "0 < sigmoid z \<and> sigmoid z < 1"
proof -
  have e: "0 < exp (- z)" by simp
  then have p: "0 < 1 + exp (- z)" by (simp add: add_pos_pos)
  have "1 < 1 + exp (- z)" using e by simp
  then have "1 / (1 + exp (- z)) < 1" using p by (simp add: divide_less_eq)
  moreover have "0 < 1 / (1 + exp (- z))" using p by simp
  ultimately show ?thesis by (simp add: sigmoid_def)
qed

lemma sigmoid_zero: "sigmoid 0 = 1 / 2"
  by (simp add: sigmoid_def)

lemma clamp_boost:
  "0 \<le> s \<Longrightarrow> s \<le> 1 \<Longrightarrow> s \<le> clamp (s + 0.8) 0.0 1.0 \<and> clamp (s + 0.8) 0.0 1.0 \<le> 1 \<and>
     0 \<le> clamp (s + 0.8) 0.0 1.0"
  by (simp add: clamp_def)

lemma nameless_build:
  "fst (build_graph sorted_list_of_set nameless_state nameless_logon [] [] 1) = nameless_built"
  by code_simp

text \<open>
  Claim C4, as the code has it. After the boosting loop the score of every user node whose
  name in \<open>node_id\<close> is a non-empty string of \<open>malicious_users\<close> is its sigmoid score
  plus 0.8, clamped to [0, 1]; the score of every other node is its sigmoid score. So no
  score is lowered and every score is at most 1.
\<close>

theorem boost_known_malicious:
  assumes "boost_scores st [0..<n] (\<lambda>i. sigmoid (logits i)) = Inr boosted"
  shows "(i < n \<and> map_of (node_type st) i = Some User \<and>
          name_of_index (node_id st) i = Some user_name \<and>
          user_name \<noteq> [] \<and> user_name \<in> malicious_users st \<longrightarrow>
            boosted i = clamp (sigmoid (logits i) + 0.8) 0.0 1.0) \<and>
         (\<not> (i < n \<and> known_malicious_user st i) \<longrightarrow> boosted i = sigmoid (logits i)) \<and>
         sigmoid (logits i) \<le> boosted i \<and> boosted i \<le> 1"
proof -
  have v: "boosted i = (if i \<in> set [0..<n] \<and> known_malicious_user st i
                  then clamp (sigmoid (logits i) + 0.8) 0.0 1.0 else sigmoid (logits i))"
    by (rule boost_scores_value [OF assms]) simp
  have b: "0 \<le> sigmoid (logits i)" "sigmoid (logits i) \<le> 1"
    using sigmoid_bounds [of "logits i"] by simp_all
  note c = clamp_boost [OF b]
  have 1: "i < n \<and> map_of (node_type st) i = Some User \<and>
          name_of_index (node_id st) i = Some user_name \<and>
          user_name \<noteq> [] \<and> user_name \<in> malicious_users st \<longrightarrow>
            boosted i = clamp (sigmoid (logits i) + 0.8) 0.0 1.0"
    using v by (simp add: known_malicious_user_def)
  have 2: "\<not> (i < n \<and> known_malicious_user st i) \<longrightarrow> boosted i = sigmoid (logits i)"
    using v by simp
  have 3: "sigmoid (logits i) \<le> boosted i \<and> boosted i \<le> 1"
    using v b c by (simp split: if_splits)
  from 1 2 3 show ?thesis by blast
qed

theorem boost_known_malicious_witness:
  "(\<exists>boosted. boost_scores scenario_built [0..<5] (\<lambda>i. sigmoid 0) = Inr boosted \<and>
      boosted 0 = clamp (sigmoid 0 + 0.8) 0.0 1.0 \<and> boosted 1 = sigmoid 0) \<and>
   map_of (node_type scenario_built) 0 = Some User \<and>
   name_of_index (node_id scenario_built) 0 = Some ''A'' \<and>
   ''A'' \<in> malicious_users scenario_built \<and>
   \<not> known_malicious_user scenario_built 1 \<and>
   clamp (sigmoid 0 + 0.8) 0.0 1.0 = 1"
proof -
  have k: "\<forall>i\<in>set [0..<5]. map_of (node_type scenario_built) i \<noteq> None"
    by code_simp
  obtain boosted where
    b: "boost_scores scenario_built [0..<5] (\<lambda>i. sigmoid 0) = Inr boosted"
    using boost_scores_total [OF k] by blast
  have f: "map_of (node_type scenario_built) 0 = Some User"
    "name_of_index (node_id scenario_built) 0 = Some ''A''"
    "''A'' \<in> malicious_users scenario_built"
    "\<not> known_malicious_user scenario_built 1"
    by code_simp+
  have c: "clamp (sigmoid 0 + 0.8) 0.0 1.0 = 1"
    by (simp add: sigmoid_zero clamp_def)
  from boost_known_malicious [OF b, of 0 "''A''"] boost_known_malicious [OF b, of 1 "''A''"]
  have "boosted 0 = clamp (sigmoid 0 + 0.8) 0.0 1.0 \<and> boosted 1 = sigmoid 0"
    using f by simp
  with b f c show ?thesis by blast
qed

text \<open>
  Claim C4 as stated fails for the user with the empty name: node 0 is a user, its name is
  in \<open>malicious_users\<close>, and its score stays 1/2 where the clamped sum is 1.
\<close>

theorem empty_name_not_boosted:
  "fst (build_graph sorted_list_of_set nameless_state nameless_logon [] [] 1) = nameless_built \<and>
   map_of (node_type nameless_built) 0 = Some User \<and>
   name_of_index (node_id nameless_built) 0 = Some '''' \<and>
   '''' \<in> malicious_users nameless_built \<and>
   (case boost_scores nameless_built [0..<2] (\<lambda>i. sigmoid 0) of
      Inl e \<Rightarrow> None | Inr boosted \<Rightarrow> Some (boosted 0)) = Some (1 / 2) \<and>
   sigmoid 0 = 1 / 2 \<and>
   clamp (sigmoid 0 + 0.8) 0.0 1.0 = 1"
proof -
  have f: "map_of (node_type nameless_built) 0 = Some User"
    "name_of_index (node_id nameless_built) 0 = Some ''''"
    "'''' \<in> malicious_users nameless_built"
    by code_simp+
  have b: "(case boost_scores nameless_built [0..<2] (\<lambda>i. 1 / 2) of
      Inl e \<Rightarrow> None | Inr boosted \<Rightarrow> Some (boosted 0)) = Some (1 / 2)"
    by code_simp
  have c: "clamp (sigmoid 0 + 0.8) 0.0 1.0 = 1"
    by (simp add: sigmoid_zero clamp_def)
  show ?thesis
    using nameless_build f b c by (simp add: sigmoid_zero)
qed

lemma collect_users_total:
  "(\<forall>i\<in>set idxs. map_of (node_type st) i \<noteq> None) \<Longrightarrow>
     \<exists>top_users. collect_users st scores idxs = Inr top_users"
proof (induction idxs)
  case Nil
  then show ?case by simp
next
  case (Cons i idxs)
  from Cons.prems obtain kind where k: "map_of (node_type st) i = Some kind" by auto
  from Cons.prems have "\<forall>i\<in>set idxs. map_of (node_type st) i \<noteq> None" by simp
  from Cons.IH [OF this] obtain others where "collect_users st scores idxs = Inr others" by blast
  then show ?case
    using k by (simp split: option.splits)
qed

lemma collect_users_entries:
  "collect_users st scores idxs = Inr top_users \<Longrightarrow>
     \<forall>e\<in>set top_users. \<exists>i\<in>set idxs.
        map_of (node_type st) i = Some User \<and>
        name_of_index (node_id st) i = Some (p_user e) \<and> p_user e \<noteq> [] \<and>
        p_score e = scores i \<and>
        p_is_known_malicious e = (p_user e \<in> malicious_users st)"
proof (induction idxs arbitrary: top_users)
  case Nil
  then show ?case by simp
next
  case (Cons i idxs)
  from Cons.prems obtain kind others where
    k: "map_of (node_type st) i = Some kind" and
    o: "collect_users st scores idxs = Inr others"
    by (auto split: option.splits sum.splits)
  note ih = Cons.IH [OF o]
  show ?case
  proof (cases "kind = User \<and> (\<exists>n. name_of_index (node_id st) i = Some n \<and> n \<noteq> [])")
    case True
    then obtain n where n: "name_of_index (node_id st) i = Some n" "n \<noteq> []" by blast
    from Cons.prems k o True n have
      "top_users = \<lparr>p_user = n, p_score = scores i,
                    p_is_known_malicious = (n \<in> malicious_users st)\<rparr> # others"
      by simp
    then show ?thesis using ih k True n by auto
  next
    case False
    from Cons.prems k o False have "top_users = others"
      by (auto split: option.splits if_splits)
    then show ?thesis using ih by auto
  qed
qed

lemma sort_by_score_sorted:
  "sorted_wrt (\<lambda>a b. p_score b \<le> p_score a) (sort_by_score top_users)"
proof -
  have "sorted (map (\<lambda>e. - p_score e) (sort_by_score top_users))"
    by (simp add: sort_by_score_def)
  then show ?thesis
    by (simp add: sorted_map)
qed

lemma take_sorted_scores:
  assumes "Suc j < length (take k (sort_by_score top_users))"
  shows "p_score (take k (sort_by_score top_users) ! Suc j) \<le>
         p_score (take k (sort_by_score top_users) ! j)"
proof -
  have "sorted_wrt (\<lambda>a b. p_score b \<le> p_score a) (take k (sort_by_score top_users))"
    using sort_by_score_sorted by (rule sorted_wrt_take)
  then show ?thesis
    using assms by (simp add: sorted_wrt_iff_nth_less)
qed

lemma collect_users_length:
  "collect_users st scores idxs = Inr top_users \<Longrightarrow>
     length top_users = length (filter (listed_user st) idxs)"
proof (induction idxs arbitrary: top_users)
  case Nil
  then show ?case by simp
next
  case (Cons i idxs)
  from Cons.prems obtain kind others where
    k: "map_of (node_type st) i = Some kind" and
    o: "collect_users st scores idxs = Inr others"
    by (auto split: option.splits sum.splits)
  note ih = Cons.IH [OF o]
  show ?case
  proof (cases "listed_user st i")
    case True
    then obtain n where "kind = User" "name_of_index (node_id st) i = Some n" "n \<noteq> []"
      using k by (auto simp: listed_user_def split: option.splits)
    with Cons.prems k o have "length top_users = Suc (length others)" by auto
    with ih True show ?thesis by simp
  next
    case False
    with Cons.prems k o have "top_users = others"
      by (auto simp: listed_user_def split: option.splits if_splits)
    with ih False show ?thesis by simp
  qed
qed

lemma find_index_in_map:
  "i \<in> set xs \<Longrightarrow>
     find (\<lambda>(name, idx). idx = i) (map (\<lambda>j. (g j, j)) xs @ ys) = Some (g i, i)"
  by (induction xs) auto

lemma map_of_const_map:
  "i \<in> set xs \<Longrightarrow> map_of (map (\<lambda>j. (j, v)) xs @ ys) i = Some v"
  by (induction xs) auto

lemma crowd_types:
  "i < 51 \<Longrightarrow> map_of (node_type crowd_trained) i = Some User"
  "map_of (node_type crowd_trained) 51 = Some Pc"
proof -
  show "i < 51 \<Longrightarrow> map_of (node_type crowd_trained) i = Some User"
    by (simp add: crowd_trained_def map_of_const_map del: map_of_append)
  have "map_of (map (\<lambda>j. (j, User)) [0..<51]) (51 :: nat) = None"
    by (simp add: map_of_eq_None_iff image_iff)
  then show "map_of (node_type crowd_trained) 51 = Some Pc"
    by (simp add: crowd_trained_def map_add_def)
qed

lemma crowd_listed: "filter (listed_user crowd_trained) [0..<52] = [0..<51]"
proof -
  have u: "listed_user crowd_trained i" if "i < 51" for i
  proof -
    have "name_of_index (node_id crowd_trained) i = Some (replicate (Suc i) CHR ''u'')"
      using that by (simp add: crowd_trained_def name_of_index_def find_index_in_map)
    then show ?thesis
      using crowd_types(1) [OF that] by (simp add: listed_user_def)
  qed
  have p: "\<not> listed_user crowd_trained 51"
    using crowd_types(2) by (simp add: listed_user_def)
  have "[0..<52] = [0..<51] @ [51 :: nat]"
    using upt_Suc_append [of 0 51] by simp
  then have "filter (listed_user crowd_trained) [0..<52] =
      filter (listed_user crowd_trained) [0..<51] @ filter (listed_user crowd_trained) [51]"
    by simp
  also have "filter (listed_user crowd_trained) [0..<51] = [0..<51]"
    using u by (simp add: filter_id_conv)
  finally show ?thesis using p by simp
qed

lemma crowd_predictions:
  "\<exists>result. get_predictions zero_forward crowd_trained top_k_arg = Inr result \<and>
     length result = min (case top_k_arg of None \<Rightarrow> 50 | Some k \<Rightarrow> k) 51"
proof -
  let ?sc = "\<lambda>i. sigmoid (zero_forward () (data_x crowd_graph) (data_edge_index crowd_graph) i)"
  have n: "num_nodes crowd_graph = 52"
    by (simp add: num_nodes_def crowd_graph_def)
  have keys: "\<forall>i\<in>set [0..<52]. map_of (node_type crowd_trained) i \<noteq> None"
  proof
    fix i :: nat assume "i \<in> set [0..<52]"
    then have "i < 51 \<or> i = 51" by auto
    then show "map_of (node_type crowd_trained) i \<noteq> None"
      using crowd_types by auto
  qed
  obtain boosted where b: "boost_scores crowd_trained [0..<52] ?sc = Inr boosted"
    using boost_scores_total [OF keys] by blast
  obtain top_users where c: "collect_users crowd_trained boosted [0..<52] = Inr top_users"
    using collect_users_total [OF keys] by blast
  have len: "length top_users = 51"
    using collect_users_length [OF c] by (simp add: crowd_listed)
  have md: "model crowd_trained = Some ()" "data crowd_trained = Some crowd_graph"
    by (simp_all add: crowd_trained_def)
  have "get_predictions zero_forward crowd_trained top_k_arg =
      Inr (take (case top_k_arg of None \<Rightarrow> 50 | Some k \<Rightarrow> k) (sort_by_score top_users))"
    by (simp add: get_predictions_def md n rank_users_def b c Let_def)
  then show ?thesis
    using len by (simp add: sort_by_score_def)
qed

lemma scenario_train:
  "train_model topk_high () idle_step scenario_built 25 = Inr (scenario_trained, replicate 25 0)"
  by code_simp

lemma scenario_predictions:
  "get_predictions zero_forward scenario_trained (Some 2) =
     Inr [\<lparr>p_user = ''A'', p_score = 1, p_is_known_malicious = True\<rparr>,
          \<lparr>p_user = ''B'', p_score = 1 / 2, p_is_known_malicious = False\<rparr>]"
proof -
  have md: "model scenario_trained = Some ()" "data scenario_trained = Some scenario_graph"
    by (simp_all add: scenario_trained_def scenario_built_def)
  have n: "num_nodes scenario_graph = 5"
    by (simp add: num_nodes_def scenario_graph_def)
  have "get_predictions zero_forward scenario_trained (Some 2) =
      rank_users scenario_trained 5 (\<lambda>i. 1 / 2) 2"
    by (simp add: get_predictions_def md n zero_forward_def sigmoid_zero)
  also have "\<dots> = Inr [\<lparr>p_user = ''A'', p_score = 1, p_is_known_malicious = True\<rparr>,
          \<lparr>p_user = ''B'', p_score = 1 / 2, p_is_known_malicious = False\<rparr>]"
    by code_simp
  finally show ?thesis .
qed

text \<open>
  Claim C5, as the code has it. Every entry that \<open>get_predictions\<close> returns is the entry
  of a user node, with the boosted score of that node and the membership of its name in
  \<open>malicious_users\<close>; the returned list is the first \<open>top_k\<close> entries of the collected
  list sorted (stably) by descending score, so consecutive entries never increase in score;
  \<open>top_k\<close> is 50 when the caller leaves it out.
\<close>

theorem get_predictions_ranked:
  assumes "get_predictions forward st top_k_arg = Inr result"
  shows "\<exists>m d boosted top_users.
           model st = Some m \<and> data st = Some d \<and>
           boost_scores st [0..<num_nodes d]
             (\<lambda>i. sigmoid (forward m (data_x d) (data_edge_index d) i)) = Inr boosted \<and>
           collect_users st boosted [0..<num_nodes d] = Inr top_users \<and>
           (\<forall>e\<in>set top_users. \<exists>i<num_nodes d.
              map_of (node_type st) i = Some User \<and>
              name_of_index (node_id st) i = Some (p_user e) \<and>
              p_score e = boosted i \<and>
              p_is_known_malicious e = (p_user e \<in> malicious_users st)) \<and>
           mset (sort_by_score top_users) = mset top_users \<and>
           sorted_wrt (\<lambda>a b. p_score b \<le> p_score a) (sort_by_score top_users) \<and>
           result = take (case top_k_arg of None \<Rightarrow> 50 | Some k \<Rightarrow> k) (sort_by_score top_users) \<and>
           length result = min (case top_k_arg of None \<Rightarrow> 50 | Some k \<Rightarrow> k) (length top_users) \<and>
           (\<forall>j. Suc j < length result \<longrightarrow> p_score (result ! Suc j) \<le> p_score (result ! j))"
proof -
  let ?k = "case top_k_arg of None \<Rightarrow> 50 | Some k \<Rightarrow> k"
  from assms obtain m d where md: "model st = Some m" "data st = Some d"
    by (auto simp: get_predictions_def Let_def split: option.splits)
  let ?sc = "\<lambda>i. sigmoid (forward m (data_x d) (data_edge_index d) i)"
  from assms md have r: "rank_users st (num_nodes d) ?sc ?k = Inr result"
    by (simp add: get_predictions_def Let_def)
  then obtain boosted top_users where
    b: "boost_scores st [0..<num_nodes d] ?sc = Inr boosted" and
    c: "collect_users st boosted [0..<num_nodes d] = Inr top_users" and
    res: "result = take ?k (sort_by_score top_users)"
    by (auto simp: rank_users_def split: sum.splits)
  have ent: "\<forall>e\<in>set top_users. \<exists>i<num_nodes d.
              map_of (node_type st) i = Some User \<and>
              name_of_index (node_id st) i = Some (p_user e) \<and>
              p_score e = boosted i \<and>
              p_is_known_malicious e = (p_user e \<in> malicious_users st)"
    using collect_users_entries [OF c] by fastforce
  have ms: "mset (sort_by_score top_users) = mset top_users"
    by (simp add: sort_by_score_def)
  have len: "length result = min ?k (length top_users)"
    by (simp add: res sort_by_score_def)
  have adj: "\<forall>j. Suc j < length result \<longrightarrow> p_score (result ! Suc j) \<le> p_score (result ! j)"
    unfolding res using take_sorted_scores by blast
  from md b c ent ms sort_by_score_sorted [of top_users] res len adj
  show ?thesis by blast
qed

theorem get_predictions_ranked_witness:
  "train_model topk_high () idle_step scenario_built 25 = Inr (scenario_trained, replicate 25 0) \<and>
   get_predictions zero_forward scenario_trained (Some 2) =
     Inr [\<lparr>p_user = ''A'', p_score = 1, p_is_known_malicious = True\<rparr>,
          \<lparr>p_user = ''B'', p_score = 1 / 2, p_is_known_malicious = False\<rparr>] \<and>
   (\<exists>top_users. length top_users = 3 \<and>
      [\<lparr>p_user = ''A'', p_score = 1, p_is_known_malicious = True\<rparr>,
       \<lparr>p_user = ''B'', p_score = 1 / 2, p_is_known_malicious = False\<rparr>] =
        take 2 (sort_by_score top_users))"
proof -
  from get_predictions_ranked [OF scenario_predictions] obtain top_users where
    t: "[\<lparr>p_user = ''A'', p_score = 1, p_is_known_malicious = True\<rparr>,
         \<lparr>p_user = ''B'', p_score = 1 / 2, p_is_known_malicious = False\<rparr>] =
        take (case Some 2 of None \<Rightarrow> 50 | Some k \<Rightarrow> k) (sort_by_score top_users)"
    and c: "\<exists>d boosted. data scenario_trained = Some d \<and>
              collect_users scenario_trained boosted [0..<num_nodes d] = Inr top_users"
    by blast
  from c obtain boosted where
    "collect_users scenario_trained boosted [0..<num_nodes scenario_graph] = Inr top_users"
    by (auto simp: scenario_trained_def scenario_built_def)
  from collect_users_length [OF this] have "length top_users =
      length (filter (listed_user scenario_trained) [0..<num_nodes scenario_graph])" .
  also have "\<dots> = 3" by code_simp
  finally have "length top_users = 3" .
  with t scenario_train scenario_predictions show ?thesis by auto
qed

text \<open>
  Claim C5 as stated fails in its default: with 51 users and \<open>top_k\<close> left out, 50 entries
  come back, where \<open>top_k = 100\<close> returns all 51.
\<close>

theorem default_top_k_counterexample:
  "map_sum id length (get_predictions zero_forward crowd_trained None) = Inr 50 \<and>
   map_sum id length (get_predictions zero_forward crowd_trained (Some 100)) = Inr 51"
proof -
  from crowd_predictions [of None] obtain r where
    "get_predictions zero_forward crowd_trained None = Inr r" "length r = 50" by auto
  moreover from crowd_predictions [of "Some 100"] obtain r' where
    "get_predictions zero_forward crowd_trained (Some 100) = Inr r'" "length r' = 51" by auto
  ultimately show ?thesis by simp
qed

section \<open>Properties of the export\<close>

lemma update_values:
  "snd ` set (AList.update k v al) \<subseteq> insert v (snd ` set al)"
  by (induction al) auto

lemma update_distinct_values:
  "distinct (map snd al) \<Longrightarrow> v \<notin> snd ` set al \<Longrightarrow> distinct (map snd (AList.update k v al))"
proof (induction al)
  case Nil
  then show ?case by simp
next
  case (Cons p al)
  show ?case
  proof (cases "fst p = k")
    case True
    with Cons.prems show ?thesis by (auto simp: image_iff)
  next
    case False
    have "snd p \<notin> snd ` set (AList.update k v al)"
      using update_values [of k v al] Cons.prems by (auto simp: image_iff)
    with False Cons show ?thesis by (auto simp: image_iff)
  qed
qed

lemma fold_add_node_distinct_values:
  "distinct (map snd nid) \<Longrightarrow> (\<forall>p\<in>set nid. snd p < idx) \<Longrightarrow>
     distinct (map snd (fst (fold (add_node k) names (nid, nty, idx))))"
proof (induction names arbitrary: nid nty idx)
  case Nil
  then show ?case by simp
next
  case (Cons a names)
  have d: "distinct (map snd (AList.update a idx nid))"
    using Cons.prems by (intro update_distinct_values) auto
  have v: "\<forall>p\<in>set (AList.update a idx nid). snd p < Suc idx"
    using Cons.prems(2) by (auto simp: less_Suc_eq dest!: set_update_cases)
  from Cons.IH [OF d v] show ?case by (simp add: add_node_apply)
qed

lemma assign_nodes_distinct_values:
  "distinct (map snd (fst (assign_nodes us ps ds)))"
proof (rule assign_nodes_parts [of us ps ds])
  fix n1 t1 n2 t2 n3 t3
  assume f1: "fold (add_node User) us ([], [], 0) = (n1, t1, length us)"
    and f2: "fold (add_node Pc) ps (n1, t1, length us) = (n2, t2, length us + length ps)"
    and f3: "fold (add_node Domain) ds (n2, t2, length us + length ps) =
               (n3, t3, length us + length ps + length ds)"
    and a: "assign_nodes us ps ds = (n3, t3, length us + length ps + length ds)"
  have v1: "\<forall>p\<in>set n1. snd p < length us"
    using fold_add_node_values [of "[]" 0 User us "[]"] f1 by simp
  have v2: "\<forall>p\<in>set n2. snd p < length us + length ps"
    using fold_add_node_values [OF v1, of Pc ps t1] f2 by simp
  have d1: "distinct (map snd n1)"
    using fold_add_node_distinct_values [of "[]" 0 User us "[]"] f1 by simp
  have d2: "distinct (map snd n2)"
    using fold_add_node_distinct_values [OF d1 v1, of Pc ps t1] f2 by simp
  have d3: "distinct (map snd n3)"
    using fold_add_node_distinct_values [OF d2 v2, of Domain ds t2] f3 by simp
  show ?thesis by (simp add: a d3)
qed

lemma name_of_index_member:
  assumes "distinct (map snd nid)" and "(name, i) \<in> set nid"
  shows "name_of_index nid i = Some name"
  using assms
proof (induction nid)
  case Nil
  then show ?case by simp
next
  case (Cons p nid)
  show ?case
  proof (cases "p = (name, i)")
    case True
    then show ?thesis by (simp add: name_of_index_def)
  next
    case False
    with Cons.prems have m: "(name, i) \<in> set nid" by simp
    then have "i \<in> snd ` set nid" by force
    with Cons.prems(1) have "snd p \<noteq> i" by auto
    moreover have "name_of_index nid i = Some name"
      using Cons.IH Cons.prems(1) m by simp
    ultimately show ?thesis
      by (cases p) (simp add: name_of_index_def)
  qed
qed

lemma name_of_index_None:
  "i \<notin> snd ` set nid \<Longrightarrow> name_of_index nid i = None"
  by (induction nid) (auto simp: name_of_index_def)

lemma edge_names_fold:
  assumes "distinct (map snd nid)"
  shows "fold (\<lambda>(name, idx) (src_name, tgt_name).
             if idx = s then (Some name, tgt_name)
             else if idx = t then (src_name, Some name)
             else (src_name, tgt_name)) nid (a, b) =
         (case name_of_index nid s of None \<Rightarrow> a | Some n \<Rightarrow> Some n,
          if s = t then b else (case name_of_index nid t of None \<Rightarrow> b | Some n \<Rightarrow> Some n))"
  using assms
proof (induction nid arbitrary: a b)
  case Nil
  then show ?case by (simp add: name_of_index_def)
next
  case (Cons p nid)
  obtain name idx where p: "p = (name, idx)" by (cases p)
  from Cons.prems p have d: "distinct (map snd nid)" and ni: "idx \<notin> snd ` set nid"
    by auto
  note ih = Cons.IH [OF d]
  show ?case
  proof (cases "idx = s")
    case True
    have "name_of_index nid s = None"
      using ni True by (intro name_of_index_None) simp
    moreover have "name_of_index (p # nid) s = Some name"
      using p True by (simp add: name_of_index_def)
    moreover have "s \<noteq> t \<Longrightarrow> name_of_index (p # nid) t = name_of_index nid t"
      using p True by (simp add: name_of_index_def)
    ultimately show ?thesis
      using p True by (simp add: ih)
  next
    case False
    have s: "name_of_index (p # nid) s = name_of_index nid s"
      using p False by (simp add: name_of_index_def)
    show ?thesis
    proof (cases "idx = t")
      case True
      have "name_of_index nid t = None"
        using ni True by (intro name_of_index_None) simp
      moreover have "name_of_index (p # nid) t = Some name"
        using p True by (simp add: name_of_index_def)
      ultimately show ?thesis
        using p False True s by (auto simp add: ih)
    next
      case nt: False
      have "name_of_index (p # nid) t = name_of_index nid t"
        using p nt by (simp add: name_of_index_def)
      then show ?thesis
        using p False nt s by (simp add: ih)
    qed
  qed
qed

lemma edge_names_eq:
  assumes "distinct (map snd nid)"
  shows "edge_names nid s t =
           (name_of_index nid s, if s = t then None else name_of_index nid t)"
  unfolding edge_names_def edge_names_fold [OF assms]
  by (simp split: option.splits)

lemma export_edge_length:
  assumes "distinct (map snd nid)"
  shows "length (export_edge nid e) = (if exported_edge nid e then 1 else 0)"
  by (simp add: export_edge_def edge_names_eq [OF assms] exported_edge_def split: option.splits)

lemma export_nodes_total:
  "(\<forall>p\<in>set nid. map_of (node_type st) (snd p) \<noteq> None \<and> snd p < length (data_x d)) \<Longrightarrow>
     \<exists>nodes. export_nodes st d nid = Inr nodes \<and> length nodes = length nid"
proof (induction nid)
  case Nil
  then show ?case by simp
next
  case (Cons p nid)
  obtain name idx where p: "p = (name, idx)" by (cases p)
  from Cons.prems p obtain kind where k: "map_of (node_type st) idx = Some kind"
    and l: "idx < length (data_x d)" by auto
  from Cons.prems have "\<forall>p\<in>set nid. map_of (node_type st) (snd p) \<noteq> None \<and> snd p < length (data_x d)"
    by simp
  from Cons.IH [OF this] obtain others where
    "export_nodes st d nid = Inr others" "length others = length nid" by blast
  then show ?case using p k l by simp
qed

lemma exported_edge_between:
  assumes dv: "distinct (map snd nid)"
    and m: "p \<in> set (edge_between nid a b feat)"
    and ne: "a \<noteq> b" "a \<noteq> []" "b \<noteq> []"
  shows "exported_edge nid (fst p)"
proof -
  obtain s where s: "map_of nid a = Some s"
    using m by (cases "map_of nid a") (auto simp: edge_between_def)
  obtain t where t: "map_of nid b = Some t"
    using m s by (cases "map_of nid b") (auto simp: edge_between_def)
  have p: "p = ((s, t), feat)"
    using m s t by (simp add: edge_between_def)
  have sa: "(a, s) \<in> set nid" using s by (rule map_of_SomeD)
  have tb: "(b, t) \<in> set nid" using t by (rule map_of_SomeD)
  have ns: "name_of_index nid s = Some a" by (rule name_of_index_member [OF dv sa])
  have nt: "name_of_index nid t = Some b" by (rule name_of_index_member [OF dv tb])
  have "s \<noteq> t"
  proof
    assume "s = t"
    with ns nt have "a = b" by simp
    with ne(1) show False by simp
  qed
  then show ?thesis
    using ns nt ne p by (simp add: exported_edge_def)
qed

lemma day_edges_exported:
  assumes dv: "distinct (map snd nid)" and sep: "separate_names lr dr hr"
    and e: "e \<in> set (map fst (day_edges nid lr dr hr))"
  shows "exported_edge nid e"
proof -
  from e obtain p where p: "p \<in> set (day_edges nid lr dr hr)" and ep: "e = fst p" by auto
  from p consider
    (logon) r where "r \<in> set lr"
      "p \<in> set (edge_between nid (lg_user r) (lg_pc r) [lg_logon r, lg_logoff r, 0, 0, 0])"
    | (device) r where "r \<in> set dr"
      "p \<in> set (edge_between nid (dv_user r) (dv_pc r) [0, 0, dv_connect r, dv_disconnect r, 0])"
    | (http) r where "r \<in> set hr"
      "p \<in> set (edge_between nid (ht_user r) (ht_domain r) [0, 0, 0, 0, ht_request_count r])"
    by (auto simp: day_edges_def logon_edges_def device_edges_def http_edges_def)
  then show ?thesis
  proof cases
    case logon
    have "lg_user r \<in> day_users lr dr hr" "lg_pc r \<in> day_pcs lr dr"
      using logon(1) by (auto simp: day_users_def day_pcs_def)
    with sep have "lg_user r \<noteq> lg_pc r" "lg_user r \<noteq> []" "lg_pc r \<noteq> []"
      by (auto simp: separate_names_def)
    from exported_edge_between [OF dv logon(2) this] ep show ?thesis by simp
  next
    case device
    have "dv_user r \<in> day_users lr dr hr" "dv_pc r \<in> day_pcs lr dr"
      using device(1) by (auto simp: day_users_def day_pcs_def)
    with sep have "dv_user r \<noteq> dv_pc r" "dv_user r \<noteq> []" "dv_pc r \<noteq> []"
      by (auto simp: separate_names_def)
    from exported_edge_between [OF dv device(2) this] ep show ?thesis by simp
  next
    case http
    have "ht_user r \<in> day_users lr dr hr" "ht_domain r \<in> day_domains hr"
      using http(1) by (auto simp: day_users_def day_domains_def)
    with sep have "ht_user r \<noteq> ht_domain r" "ht_user r \<noteq> []" "ht_domain r \<noteq> []"
      by (auto simp: separate_names_def)
    from exported_edge_between [OF dv http(2) this] ep show ?thesis by simp
  qed
qed

lemma separate_names_card:
  assumes "separate_names lr dr hr"
  shows "card (day_users lr dr hr \<union> day_pcs lr dr \<union> day_domains hr) =
           card (day_users lr dr hr) + card (day_pcs lr dr) + card (day_domains hr)"
proof -
  have "card (day_users lr dr hr \<union> day_pcs lr dr) = card (day_users lr dr hr) + card (day_pcs lr dr)"
    using assms by (intro card_Un_disjoint) (auto simp: separate_names_def)
  moreover have "card (day_users lr dr hr \<union> day_pcs lr dr \<union> day_domains hr) =
      card (day_users lr dr hr \<union> day_pcs lr dr) + card (day_domains hr)"
    using assms by (intro card_Un_disjoint) (auto simp: separate_names_def)
  ultimately show ?thesis by simp
qed

lemma built_graph_indices:
  assumes "set_iteration iter" and "build_graph iter st lg dv ht d = (st', Some g)"
  shows "(\<forall>p\<in>set (node_id st'). snd p < num_nodes g) \<and>
         (\<forall>i<num_nodes g. map_of (node_type st') i \<noteq> None)"
proof -
  let ?lr = "logon_on d lg" and ?dr = "device_on d dv" and ?hr = "http_on d ht"
  note b = build_graph_Some [OF assms(2)]
  have n: "num_nodes g = card (day_users ?lr ?dr ?hr) + card (day_pcs ?lr ?dr) + card (day_domains ?hr)"
    by (simp add: num_nodes_def b(2) day_nodes_count [OF assms(1)])
  have "\<forall>p\<in>set (node_id st'). snd p < num_nodes g"
    using assign_nodes_values [of "iter (day_users ?lr ?dr ?hr)" "iter (day_pcs ?lr ?dr)"
        "iter (day_domains ?hr)"]
    by (simp add: b(6) day_nodes_def n set_iteration_length [OF assms(1)])
  moreover have "\<forall>i<num_nodes g. map_of (node_type st') i \<noteq> None"
    by (simp add: n b(7) day_nodes_type [OF assms(1)])
  ultimately show ?thesis by blast
qed

lemma scenario_separate:
  "separate_names (logon_on 1 scenario_logon) (device_on 1 []) (http_on 1 scenario_http)"
  by code_simp

lemma scenario_viz_stats:
  "map_sum id (map_option viz_stats) (get_graph_data_for_visualization scenario_trained) =
     Inr (Some \<lparr>total_nodes = 5, total_edges = 4, stats_malicious_users = 1\<rparr>)"
  by code_simp

text \<open>
  Claim C7, as the code has it. For a detector that holds the node maps of a built graph
  and graph data with the \<open>x\<close> and \<open>edge_index\<close> of that graph (the labels may have
  changed in training), the export succeeds; \<open>total_nodes\<close> and \<open>total_edges\<close> are the
  lengths of the exported lists: one node per name of the day and one edge per graph edge
  that joins two different nodes with non-empty names. When no name is shared between
  users, pcs and domains and none is empty, they are the node and edge counts of the
  graph.
\<close>

theorem visualization_totals:
  assumes it: "set_iteration iter"
    and bg: "build_graph iter st lg dv ht d = (st', Some g)"
    and st2: "node_id st2 = node_id st'" "node_type st2 = node_type st'" "data st2 = Some g2"
    and g2: "data_x g2 = data_x g" "data_edge_index g2 = data_edge_index g"
  shows "\<exists>v. get_graph_data_for_visualization st2 = Inr (Some v) \<and>
           total_nodes (viz_stats v) = length (viz_nodes v) \<and>
           total_edges (viz_stats v) = length (viz_edges v) \<and>
           total_nodes (viz_stats v) =
             card (day_users (logon_on d lg) (device_on d dv) (http_on d ht) \<union>
                   day_pcs (logon_on d lg) (device_on d dv) \<union> day_domains (http_on d ht)) \<and>
           total_edges (viz_stats v) =
             length (filter (exported_edge (node_id st2)) (data_edge_index g2)) \<and>
           (separate_names (logon_on d lg) (device_on d dv) (http_on d ht) \<longrightarrow>
              total_nodes (viz_stats v) = num_nodes g2 \<and>
              total_edges (viz_stats v) = num_edges g2)"
proof -
  let ?lr = "logon_on d lg" and ?dr = "device_on d dv" and ?hr = "http_on d ht"
  let ?nid = "node_id st'"
  let ?U = "day_users ?lr ?dr ?hr" and ?P = "day_pcs ?lr ?dr" and ?D = "day_domains ?hr"
  note b = build_graph_Some [OF bg]
  note c = built_graph_indices [OF it bg]
  have nid: "?nid = fst (assign_nodes (iter ?U) (iter ?P) (iter ?D))"
    by (simp add: b(6) day_nodes_def)
  have dk: "distinct (map fst ?nid)" by (simp add: nid assign_nodes_distinct)
  have dv: "distinct (map snd ?nid)" by (simp add: nid assign_nodes_distinct_values)
  have keys: "fst ` set ?nid = ?U \<union> ?P \<union> ?D"
    using day_nodes_keys [OF it, of ?lr ?dr ?hr] by (simp add: b(6))
  have "length ?nid = card (fst ` set ?nid)"
    using distinct_card [OF dk] by simp
  then have len: "length ?nid = card (?U \<union> ?P \<union> ?D)"
    by (simp add: keys)
  have n: "length (data_x g2) = num_nodes g"
    by (simp add: g2 num_nodes_def)
  have ok: "\<forall>p\<in>set (node_id st2). map_of (node_type st2) (snd p) \<noteq> None \<and>
              snd p < length (data_x g2)"
  proof
    fix p assume "p \<in> set (node_id st2)"
    then have "p \<in> set ?nid" by (simp add: st2)
    with c have lt: "snd p < num_nodes g" by blast
    with c have "map_of (node_type st') (snd p) \<noteq> None" by blast
    with lt show "map_of (node_type st2) (snd p) \<noteq> None \<and> snd p < length (data_x g2)"
      by (simp add: st2 n)
  qed
  from export_nodes_total [OF ok] obtain nodes where
    en: "export_nodes st2 g2 (node_id st2) = Inr nodes" and ln: "length nodes = length ?nid"
    by (auto simp: st2)
  let ?edges = "concat (map (export_edge (node_id st2)) (data_edge_index g2))"
  let ?v = "\<lparr>viz_nodes = nodes, viz_edges = ?edges,
             viz_stats = \<lparr>total_nodes = length nodes, total_edges = length ?edges,
               stats_malicious_users =
                 length (filter (\<lambda>n. vn_is_malicious n \<and> vn_type n = User) nodes)\<rparr>\<rparr>"
  have v: "get_graph_data_for_visualization st2 = Inr (Some ?v)"
    by (simp add: get_graph_data_for_visualization_def st2(3) en Let_def)
  have le: "length ?edges = length (filter (exported_edge (node_id st2)) (data_edge_index g2))"
    by (rule length_concat_indicator) (simp add: export_edge_length st2 dv)
  have sepc: "separate_names ?lr ?dr ?hr \<longrightarrow>
      length nodes = num_nodes g2 \<and> length ?edges = num_edges g2"
  proof
    assume sep: "separate_names ?lr ?dr ?hr"
    have "num_nodes g = card ?U + card ?P + card ?D"
      by (simp add: num_nodes_def b(2) day_nodes_count [OF it])
    then have "length nodes = num_nodes g"
      by (simp add: ln len separate_names_card [OF sep])
    then have a: "length nodes = num_nodes g2" by (simp add: num_nodes_def g2)
    have "\<forall>e\<in>set (data_edge_index g2). exported_edge (node_id st2) e"
      using day_edges_exported [OF dv sep] by (simp add: g2 b(1) b(6) st2)
    then have "filter (exported_edge (node_id st2)) (data_edge_index g2) = data_edge_index g2"
      by (simp add: filter_id_conv)
    then have "length ?edges = num_edges g2"
      by (simp add: le num_edges_def)
    with a show "length nodes = num_nodes g2 \<and> length ?edges = num_edges g2" by simp
  qed
  have "total_nodes (viz_stats ?v) = length (viz_nodes ?v) \<and>
        total_edges (viz_stats ?v) = length (viz_edges ?v) \<and>
        total_nodes (viz_stats ?v) = card (?U \<union> ?P \<union> ?D) \<and>
        total_edges (viz_stats ?v) =
          length (filter (exported_edge (node_id st2)) (data_edge_index g2)) \<and>
        (separate_names ?lr ?dr ?hr \<longrightarrow>
           total_nodes (viz_stats ?v) = num_nodes g2 \<and> total_edges (viz_stats ?v) = num_edges g2)"
    using ln len le sepc by simp
  with v show ?thesis by blast
qed

theorem visualization_totals_witness:
  "set_iteration (sorted_list_of_set :: string set \<Rightarrow> string list) \<and>
   build_graph sorted_list_of_set scenario_state scenario_logon [] scenario_http 1 =
     (scenario_built, Some scenario_graph) \<and>
   node_id scenario_trained = node_id scenario_built \<and>
   node_type scenario_trained = node_type scenario_built \<and>
   data scenario_trained = Some scenario_graph \<and>
   separate_names (logon_on 1 scenario_logon) (device_on 1 []) (http_on 1 scenario_http) \<and>
   map_sum id (map_option viz_stats) (get_graph_data_for_visualization scenario_trained) =
     Inr (Some \<lparr>total_nodes = 5, total_edges = 4, stats_malicious_users = 1\<rparr>) \<and>
   num_nodes scenario_graph = 5 \<and> num_edges scenario_graph = 4"
proof -
  have s: "node_id scenario_trained = node_id scenario_built"
    "node_type scenario_trained = node_type scenario_built"
    "data scenario_trained = Some scenario_graph"
    by (simp_all add: scenario_trained_def scenario_built_def)
  have n: "num_nodes scenario_graph = 5" "num_edges scenario_graph = 4"
    by (simp_all add: num_nodes_def num_edges_def scenario_graph_def)
  from visualization_totals [OF set_iteration_sorted scenario_build s refl refl]
  show ?thesis
    using set_iteration_sorted scenario_build s scenario_separate scenario_viz_stats n by simp
qed

text \<open>
  Claim C7 as stated fails on the day of \<open>nameless_logon\<close>: the graph has 2 nodes and 1
  edge, the export reports 2 nodes and no edge, since the edge starts at the user with the
  empty name.
\<close>

theorem empty_name_edge_counterexample:
  "build_graph sorted_list_of_set nameless_state nameless_logon [] [] 1 =
     (nameless_built, data nameless_built) \<and>
   map_option num_nodes (data nameless_built) = Some 2 \<and>
   map_option num_edges (data nameless_built) = Some 1 \<and>
   map_sum id (map_option viz_stats) (get_graph_data_for_visualization nameless_built) =
     Inr (Some \<lparr>total_nodes = 2, total_edges = 0, stats_malicious_users = 1\<rparr>)"
  by code_simp

section \<open>Properties of the node numbering\<close>











section \<open>Properties of the pipeline\<close>

lemma train_model_state:
  assumes "data st = Some d"
  shows "\<exists>m training_losses.
           train_model topk create step st n =
             Inr (st\<lparr>model := Some m,
                    data := Some (fst (snd (train_epochs topk step n create d [])))\<rparr>,
                  training_losses)"
proof -
  obtain m d' ls where t: "train_epochs topk step n create d [] = (m, d', ls)"
    by (rule prod_cases3)
  have "train_model topk create step st n = Inr (st\<lparr>model := Some m, data := Some d'\<rparr>, ls)"
    using assms t by (simp add: train_model_def)
  then show ?thesis
    using t by auto
qed

lemma get_predictions_total:
  assumes "model st = Some m" and "data st = Some d"
    and "\<forall>i<num_nodes d. map_of (node_type st) i \<noteq> None"
  shows "\<exists>result. get_predictions forward st top_k_arg = Inr result"
proof -
  let ?sc = "\<lambda>i. sigmoid (forward m (data_x d) (data_edge_index d) i)"
  have keys: "\<forall>i\<in>set [0..<num_nodes d]. map_of (node_type st) i \<noteq> None"
    using assms(3) by simp
  obtain boosted where b: "boost_scores st [0..<num_nodes d] ?sc = Inr boosted"
    using boost_scores_total [OF keys] by blast
  obtain top_users where c: "collect_users st boosted [0..<num_nodes d] = Inr top_users"
    using collect_users_total [OF keys] by blast
  show ?thesis
    by (simp add: get_predictions_def assms(1,2) rank_users_def b c Let_def)
qed

lemma visualization_total:
  assumes "data st = Some d"
    and "\<forall>p\<in>set (node_id st). map_of (node_type st) (snd p) \<noteq> None \<and> snd p < length (data_x d)"
  shows "\<exists>v. get_graph_data_for_visualization st = Inr (Some v)"
proof -
  from export_nodes_total [OF assms(2)] obtain nodes where
    "export_nodes st d (node_id st) = Inr nodes" by blast
  then show ?thesis
    by (simp add: get_graph_data_for_visualization_def assms(1) Let_def)
qed

lemma analyse_built_success:
  assumes it: "set_iteration iter"
    and bg: "build_graph iter st lg dv ht d = (st1, Some g)"
  shows "\<exists>suspicious_users v training_losses sm.
           analyse_selected_day iter topk create step fwd st lg dv ht days (Some d) =
             Inr (Success d suspicious_users v training_losses sm)"
proof -
  note b = build_graph_Some [OF bg]
  note ix = built_graph_indices [OF it bg]
  let ?d' = "fst (snd (train_epochs topk step 25 create g []))"
  from train_model_state [OF b(5), of topk create step 25] obtain m ls where
    tm: "train_model topk create step st1 25 =
           Inr (st1\<lparr>model := Some m, data := Some ?d'\<rparr>, ls)"
    by blast
  let ?st2 = "st1\<lparr>model := Some m, data := Some ?d'\<rparr>"
  have x: "data_x ?d' = data_x g"
    by (simp add: train_epochs_frame)
  have n: "num_nodes ?d' = num_nodes g"
    by (simp add: num_nodes_def x)
  have "\<forall>i<num_nodes ?d'. map_of (node_type ?st2) i \<noteq> None"
    using ix by (simp add: n)
  from get_predictions_total [OF _ _ this, of m fwd "Some 100"] obtain su where
    gp: "get_predictions fwd ?st2 (Some 100) = Inr su" by auto
  have "\<forall>p\<in>set (node_id ?st2). map_of (node_type ?st2) (snd p) \<noteq> None \<and>
          snd p < length (data_x ?d')"
    using ix by (auto simp: x num_nodes_def)
  from visualization_total [OF _ this] obtain v where
    vz: "get_graph_data_for_visualization ?st2 = Inr (Some v)" by auto
  show ?thesis
    by (simp add: analyse_selected_day_def bg tm gp vz)
qed

lemma analyse_build_failure:
  "snd (build_graph iter st lg dv ht d) = None \<Longrightarrow>
     analyse_selected_day iter topk create step fwd st lg dv ht days (Some d) =
       Inl (RuntimeError ''Failed to build graph'')"
  by (cases "build_graph iter st lg dv ht d") (simp add: analyse_selected_day_def)

lemma select_day_member:
  assumes "finite A" and "finite M" and "A \<noteq> {}"
  shows "\<exists>d. select_day A M = Some d \<and> d \<in> A"
proof (cases "A \<inter> M \<noteq> {}")
  case True
  have "Min (A \<inter> M) \<in> A \<inter> M" using True assms by (intro Min_in) auto
  then show ?thesis using select_day_inter [OF assms(1,2) True] by auto
next
  case False
  show ?thesis
  proof (cases "M = {}")
    case True
    have "Max A \<in> A" using assms by (intro Max_in) auto
    then show ?thesis using select_day_latest [OF assms(3) True] by auto
  next
    case ne: False
    from select_day_closest [OF assms] False ne show ?thesis by auto
  qed
qed

lemma day_of_logs_has_rows:
  assumes "d \<in> set (map lg_day lg) \<union> set (map dv_day dv) \<union> set (map ht_day ht)"
  shows "\<not> (filter (\<lambda>r. lg_day r = d) lg = [] \<and> filter (\<lambda>r. dv_day r = d) dv = [] \<and>
            filter (\<lambda>r. ht_day r = d) ht = [])"
  using assms by (auto simp: filter_empty_conv)

lemma build_graph_None_filter:
  assumes "set_iteration iter"
  shows "snd (build_graph iter st lg dv ht d) = None \<longleftrightarrow>
           filter (\<lambda>r. lg_day r = d) lg = [] \<and> filter (\<lambda>r. dv_day r = d) dv = [] \<and>
           filter (\<lambda>r. ht_day r = d) ht = []"
  using build_graph_None_rows [OF assms, of st lg dv ht d]
  by (simp add: logon_on_def device_on_def http_on_def)

lemma build_graph_None_edges:
  "snd (build_graph iter st lg dv ht d) = None \<longleftrightarrow>
     day_edges (node_id (fst (build_graph iter st lg dv ht d)))
       (filter (\<lambda>r. lg_day r = d) lg) (filter (\<lambda>r. dv_day r = d) dv)
       (filter (\<lambda>r. ht_day r = d) ht) = []"
  using build_graph_None_iff [of iter st lg dv ht d]
  by (simp add: build_graph_node_id logon_on_def device_on_def http_on_def)

lemma built_graph_has_edge:
  assumes "set_iteration iter" and "build_graph iter st lg dv ht d = (st', Some g)"
  shows "data_edge_index g \<noteq> []"
proof -
  have "length (data_edge_index g) =
      length (logon_on d lg) + length (device_on d dv) + length (http_on d ht)"
    using build_graph_Some(1) [OF assms(2)] day_edges_length [OF assms(1)] by simp
  moreover have "\<not> (logon_on d lg = [] \<and> device_on d dv = [] \<and> http_on d ht = [])"
    using build_graph_None_rows [OF assms(1), of st lg dv ht d] assms(2) by simp
  ultimately show ?thesis by auto
qed

lemma run_analysis_body:
  assumes "set (map lg_day lg) \<union> set (map dv_day dv) \<union> set (map ht_day ht) \<noteq> {}"
  shows "run_analysis iter topk create step fwd st lg dv ht =
           report (analyse_selected_day iter topk create step fwd st lg dv ht
             (set (map lg_day lg) \<union> set (map dv_day dv) \<union> set (map ht_day ht))
             (select_day (set (map lg_day lg) \<union> set (map dv_day dv) \<union> set (map ht_day ht))
                (malicious_days st)))"
proof -
  let ?days = "set (map lg_day lg) \<union> set (map dv_day dv) \<union> set (map ht_day ht)"
  have "(if ?days = {} then Inl (ValueError ''min() arg is an empty sequence'')
         else analyse_selected_day iter topk create step fwd st lg dv ht ?days
                (select_day ?days (malicious_days st))) =
        analyse_selected_day iter topk create step fwd st lg dv ht ?days
                (select_day ?days (malicious_days st))"
    using assms by (rule if_not_P)
  then show ?thesis
    by (simp only: run_analysis_def Let_def)
qed

lemma run_analysis_selected:
  assumes it: "set_iteration iter" and fin: "finite (malicious_days st)"
    and ne: "set (map lg_day lg) \<union> set (map dv_day dv) \<union> set (map ht_day ht) \<noteq> {}"
  shows "\<exists>sd g suspicious_users v training_losses sm.
           select_day (set (map lg_day lg) \<union> set (map dv_day dv) \<union> set (map ht_day ht))
             (malicious_days st) = Some sd \<and>
           sd \<in> set (map lg_day lg) \<union> set (map dv_day dv) \<union> set (map ht_day ht) \<and>
           snd (build_graph iter st lg dv ht sd) = Some g \<and> data_edge_index g \<noteq> [] \<and>
           run_analysis iter topk create step fwd st lg dv ht =
             Success sd suspicious_users v training_losses sm"
proof -
  let ?days = "set (map lg_day lg) \<union> set (map dv_day dv) \<union> set (map ht_day ht)"
  have "finite ?days" by simp
  from select_day_member [OF this fin ne] obtain sd where
    sel: "select_day ?days (malicious_days st) = Some sd" and sd: "sd \<in> ?days" by blast
  have "snd (build_graph iter st lg dv ht sd) \<noteq> None"
    using build_graph_None_filter [OF it, of st lg dv ht sd] day_of_logs_has_rows [OF sd]
    by blast
  then obtain st1 g where bg: "build_graph iter st lg dv ht sd = (st1, Some g)"
    by (cases "build_graph iter st lg dv ht sd") auto
  have g: "snd (build_graph iter st lg dv ht sd) = Some g"
    by (simp add: bg)
  note e = built_graph_has_edge [OF it bg]
  from analyse_built_success [OF it bg, of topk create step fwd ?days]
  obtain su v tl sm where
    an: "analyse_selected_day iter topk create step fwd st lg dv ht ?days (Some sd) =
           Inr (Success sd su v tl sm)" by blast
  have "run_analysis iter topk create step fwd st lg dv ht = Success sd su v tl sm"
    by (simp only: run_analysis_body [OF ne] sel an report_def sum.case)
  with sel sd g e show ?thesis
    by blast
qed

lemma run_analysis_no_day:
  assumes "set (map lg_day lg) \<union> set (map dv_day dv) \<union> set (map ht_day ht) = {}"
  shows "run_analysis iter topk create step fwd st lg dv ht =
           Failure ''min() arg is an empty sequence''"
proof -
  let ?days = "set (map lg_day lg) \<union> set (map dv_day dv) \<union> set (map ht_day ht)"
  have "(if ?days = {} then Inl (ValueError ''min() arg is an empty sequence'')
         else analyse_selected_day iter topk create step fwd st lg dv ht ?days
                (select_day ?days (malicious_days st))) =
        Inl (ValueError ''min() arg is an empty sequence'')"
    using assms by (rule if_P)
  then show ?thesis
    by (simp only: run_analysis_def Let_def report_def sum.case str_exn_def exn.case)
qed

lemma scenario_no_row:
  "snd (build_graph sorted_list_of_set scenario_state scenario_logon [] scenario_http 3) = None"
  by code_simp

text \<open>
  Claim C8, as the code has it. The code has no exception \<open>EmptyGraphError\<close>:
  \<open>build_graph\<close> raises nothing and returns \<open>None\<close> exactly when the rows of the three frames kept for the day
  yield no edge, which is exactly when no frame has a row of that day. The body of
  \<open>run_analysis\<close> raises \<open>RuntimeError("Failed to build graph")\<close> on \<open>None\<close>, and the
  \<open>except\<close> branch hands the caller a dictionary with status \<open>"error"\<close> that holds the
  text of the message and no type; it is not a success. In a run of \<open>run_analysis\<close> the
  selected day is a day of the frames, so the graph of that day has an edge and this
  failure does not occur: with a row in some frame the run is the success dictionary of the
  selected day, and with no row at all it is the error dictionary of the \<open>ValueError\<close> of
  \<open>min(all_days)\<close>.
\<close>

theorem empty_graph_is_error:
  fixes lg :: "logon_row list" and dv :: "device_row list" and ht :: "http_row list"
    and d :: day
  defines "lr \<equiv> filter (\<lambda>r. lg_day r = d) lg"
    and "dr \<equiv> filter (\<lambda>r. dv_day r = d) dv"
    and "hr \<equiv> filter (\<lambda>r. ht_day r = d) ht"
    and "days \<equiv> lg_day ` set lg \<union> dv_day ` set dv \<union> ht_day ` set ht"
  assumes it: "set_iteration iter" and fin: "finite (malicious_days st)"
  shows "(snd (build_graph iter st lg dv ht d) = None \<longleftrightarrow>
            day_edges (node_id (fst (build_graph iter st lg dv ht d))) lr dr hr = []) \<and>
         (snd (build_graph iter st lg dv ht d) = None \<longleftrightarrow> lr = [] \<and> dr = [] \<and> hr = []) \<and>
         (snd (build_graph iter st lg dv ht d) = None \<longrightarrow>
            analyse_selected_day iter topk create step fwd st lg dv ht all_days (Some d) =
              Inl (RuntimeError ''Failed to build graph'') \<and>
            report (analyse_selected_day iter topk create step fwd st lg dv ht all_days (Some d)) =
              Failure ''Failed to build graph'' \<and>
            status (report
              (analyse_selected_day iter topk create step fwd st lg dv ht all_days (Some d))) =
              ''error'') \<and>
         (days \<noteq> {} \<longrightarrow>
            run_analysis iter topk create step fwd st lg dv ht =
              report (analyse_selected_day iter topk create step fwd st lg dv ht days
                (select_day days (malicious_days st)))) \<and>
         (days \<noteq> {} \<longrightarrow>
            (\<exists>sd g suspicious_users v training_losses sm.
               select_day days (malicious_days st) = Some sd \<and> sd \<in> days \<and>
               snd (build_graph iter st lg dv ht sd) = Some g \<and> data_edge_index g \<noteq> [] \<and>
               run_analysis iter topk create step fwd st lg dv ht =
                 Success sd suspicious_users v training_losses sm)) \<and>
         (days = {} \<longrightarrow>
            run_analysis iter topk create step fwd st lg dv ht =
              Failure ''min() arg is an empty sequence'') \<and>
         run_analysis iter topk create step fwd st lg dv ht \<noteq> Failure ''Failed to build graph''"
proof -
  have days: "days = set (map lg_day lg) \<union> set (map dv_day dv) \<union> set (map ht_day ht)"
    by (simp add: days_def)
  have a: "snd (build_graph iter st lg dv ht d) = None \<longleftrightarrow>
            day_edges (node_id (fst (build_graph iter st lg dv ht d))) lr dr hr = []"
    unfolding lr_def dr_def hr_def by (rule build_graph_None_edges)
  have b: "snd (build_graph iter st lg dv ht d) = None \<longleftrightarrow> lr = [] \<and> dr = [] \<and> hr = []"
    unfolding lr_def dr_def hr_def by (rule build_graph_None_filter [OF it])
  have c: "snd (build_graph iter st lg dv ht d) = None \<longrightarrow>
            analyse_selected_day iter topk create step fwd st lg dv ht all_days (Some d) =
              Inl (RuntimeError ''Failed to build graph'') \<and>
            report (analyse_selected_day iter topk create step fwd st lg dv ht all_days (Some d)) =
              Failure ''Failed to build graph'' \<and>
            status (report
              (analyse_selected_day iter topk create step fwd st lg dv ht all_days (Some d))) =
              ''error''"
    by (simp add: analyse_build_failure report_def str_exn_def status_def)
  have e: "days \<noteq> {} \<longrightarrow>
            run_analysis iter topk create step fwd st lg dv ht =
              report (analyse_selected_day iter topk create step fwd st lg dv ht days
                (select_day days (malicious_days st)))"
    unfolding days by (intro impI) (rule run_analysis_body)
  have f: "days \<noteq> {} \<longrightarrow>
            (\<exists>sd g suspicious_users v training_losses sm.
               select_day days (malicious_days st) = Some sd \<and> sd \<in> days \<and>
               snd (build_graph iter st lg dv ht sd) = Some g \<and> data_edge_index g \<noteq> [] \<and>
               run_analysis iter topk create step fwd st lg dv ht =
                 Success sd suspicious_users v training_losses sm)"
    unfolding days by (intro impI) (rule run_analysis_selected [OF it fin])
  have g: "days = {} \<longrightarrow>
            run_analysis iter topk create step fwd st lg dv ht =
              Failure ''min() arg is an empty sequence''"
    unfolding days by (intro impI) (rule run_analysis_no_day)
  have h: "run_analysis iter topk create step fwd st lg dv ht \<noteq>
      Failure ''Failed to build graph''"
  proof (cases "days = {}")
    case True
    with g show ?thesis by simp
  next
    case False
    with f show ?thesis by auto
  qed
  show ?thesis
    by (intro conjI) (fact a b c e f g h)+
qed

theorem empty_graph_is_error_witness:
  "set_iteration (sorted_list_of_set :: string set \<Rightarrow> string list) \<and>
   finite (malicious_days scenario_state) \<and>
   filter (\<lambda>r. lg_day r = 3) scenario_logon = [] \<and>
   filter (\<lambda>r. ht_day r = 3) scenario_http = [] \<and>
   snd (build_graph sorted_list_of_set scenario_state scenario_logon [] scenario_http 3) = None \<and>
   analyse_selected_day sorted_list_of_set topk_high () idle_step zero_forward
     scenario_state scenario_logon [] scenario_http {1, 2} (Some 3) =
       Inl (RuntimeError ''Failed to build graph'') \<and>
   report (analyse_selected_day sorted_list_of_set topk_high () idle_step zero_forward
     scenario_state scenario_logon [] scenario_http {1, 2} (Some 3)) =
       Failure ''Failed to build graph'' \<and>
   lg_day ` set scenario_logon \<union> dv_day ` set ([] :: device_row list) \<union>
     ht_day ` set scenario_http \<noteq> {} \<and>
   (\<exists>g suspicious_users v training_losses sm.
      select_day (lg_day ` set scenario_logon \<union> dv_day ` set ([] :: device_row list) \<union>
        ht_day ` set scenario_http) (malicious_days scenario_state) = Some 2 \<and>
      snd (build_graph sorted_list_of_set scenario_state scenario_logon [] scenario_http 2) =
        Some g \<and>
      data_edge_index g \<noteq> [] \<and>
      run_analysis sorted_list_of_set topk_high () idle_step zero_forward
        scenario_state scenario_logon [] scenario_http =
          Success 2 suspicious_users v training_losses sm)"
proof -
  have fin: "finite (malicious_days scenario_state)"
    by (simp add: scenario_state_def)
  note t = empty_graph_is_error [OF set_iteration_sorted fin,
      of scenario_logon "[]" scenario_http 3 topk_high "()" idle_step zero_forward "{1, 2}"]
  have l: "filter (\<lambda>r. lg_day r = 3) scenario_logon = []"
    by (simp add: scenario_logon_def)
  have h: "filter (\<lambda>r. ht_day r = 3) scenario_http = []"
    by (simp add: scenario_http_def)
  have n: "snd (build_graph sorted_list_of_set scenario_state scenario_logon [] scenario_http 3)
      = None"
    using t [THEN conjunct2, THEN conjunct1] l h by simp
  note c = t [THEN conjunct2, THEN conjunct2, THEN conjunct1, rule_format, OF n]
  have ne: "lg_day ` set scenario_logon \<union> dv_day ` set ([] :: device_row list) \<union>
     ht_day ` set scenario_http \<noteq> {}"
    by (simp add: scenario_logon_def)
  have sel: "select_day (lg_day ` set scenario_logon \<union> dv_day ` set ([] :: device_row list) \<union>
        ht_day ` set scenario_http) (malicious_days scenario_state) = Some 2"
    by code_simp
  from t [THEN conjunct2, THEN conjunct2, THEN conjunct2, THEN conjunct2, THEN conjunct1,
      rule_format, OF ne]
  have r: "\<exists>g suspicious_users v training_losses sm.
      select_day (lg_day ` set scenario_logon \<union> dv_day ` set ([] :: device_row list) \<union>
        ht_day ` set scenario_http) (malicious_days scenario_state) = Some 2 \<and>
      snd (build_graph sorted_list_of_set scenario_state scenario_logon [] scenario_http 2) =
        Some g \<and>
      data_edge_index g \<noteq> [] \<and>
      run_analysis sorted_list_of_set topk_high () idle_step zero_forward
        scenario_state scenario_logon [] scenario_http =
          Success 2 suspicious_users v training_losses sm"
    unfolding sel by auto
  show ?thesis
    by (intro conjI) (rule set_iteration_sorted fin l h n c [THEN conjunct1]
      c [THEN conjunct2, THEN conjunct1] ne r)+
qed

text \<open>
  Claim C8 as stated fails: for the rows of the scenario and day 3, which has no row,
  \<open>build_graph\<close> returns \<open>None\<close> and raises nothing; the dictionary that the \<open>except\<close>
  branch builds from the \<open>RuntimeError\<close> of the body is the one it builds from a
  \<open>ValueError\<close> with the same message, so the caller cannot read the type of the error
  from it.
\<close>

theorem untyped_error_counterexample:
  "snd (build_graph sorted_list_of_set scenario_state scenario_logon [] scenario_http 3) = None \<and>
   report (analyse_selected_day sorted_list_of_set topk_high () idle_step zero_forward
     scenario_state scenario_logon [] scenario_http {1, 2} (Some 3)) =
       Failure ''Failed to build graph'' \<and>
   report (Inl (ValueError ''Failed to build graph'')) =
     report (analyse_selected_day sorted_list_of_set topk_high () idle_step zero_forward
       scenario_state scenario_logon [] scenario_http {1, 2} (Some 3))"
proof -
  note n = scenario_no_row
  have a: "analyse_selected_day sorted_list_of_set topk_high () idle_step zero_forward
     scenario_state scenario_logon [] scenario_http {1, 2} (Some 3) =
       Inl (RuntimeError ''Failed to build graph'')"
    by (rule analyse_build_failure [OF n])
  show ?thesis
    by (simp add: n a report_def str_exn_def)
qed

end
